theory Spec2Isabelle
  imports
    Main
    "HOL-Library.AList"
    "HOL-Library.Sublist"
    "HOL-Library.Char_ord"
    "HOL-Library.List_Lexorder"
begin

section \<open>Values, dictionaries and errors\<close>

text \<open>
  A shallow embedding of \<^verbatim>\<open>hammer_config/config_src.py\<close>.

  A setting value is what \<^verbatim>\<open>json.loads\<close> or the YAML loader produces: null, a boolean, an
  integer, a string, a list or a mapping.  Floating-point numbers are left out of the model;
  every statement below is about configurations without them.  A string is a list of
  \<^typ>\<open>char\<close>, each read as one code point below 256, so that the regular expression class
  \<^verbatim>\<open>\d\<close> is exactly the digits 0 to 9.

  A Python \<^verbatim>\<open>dict\<close> keeps its keys in insertion order, and the code iterates over
  dictionaries, so a dictionary is an association list: \<^verbatim>\<open>d[k] = v\<close> is
  \<^const>\<open>AList.update\<close> (the position of an existing key is kept, a new key goes to the end),
  \<^verbatim>\<open>del d[k]\<close> is \<^const>\<open>AList.delete\<close>, \<^verbatim>\<open>d[k]\<close> is \<^const>\<open>map_of\<close> with a
  \<^verbatim>\<open>KeyError\<close> for a missing key.

  Values are immutable here.  The one in-place mutation of a value in the source, the
  \<^verbatim>\<open>+=\<close> of \<^verbatim>\<open>append_action\<close>, is modelled as a new binding of the key; the two agree
  whenever the list under the key is not shared with another key.
\<close>

datatype val =
    VNull
  | VBool bool
  | VInt int
  | VStr string
  | VList "val list"
  | VDict "(string \<times> val) list"

type_synonym dict = "(string \<times> val) list"

text \<open>One constructor for each \<^verbatim>\<open>raise\<close>, failing \<^verbatim>\<open>assert\<close> or failing primitive.\<close>

datatype error =
    KeyError string
      \<comment> \<open>\<^verbatim>\<open>d[k]\<close> or \<^verbatim>\<open>del d[k]\<close> with \<^verbatim>\<open>k\<close> missing\<close>
  | TypeError
      \<comment> \<open>an operand of the wrong type in \<^verbatim>\<open>+\<close>, \<^verbatim>\<open>re.sub\<close>, \<^verbatim>\<open>int\<close>, \<^verbatim>\<open>os.path.join\<close>, item assignment\<close>
  | AttributeError
      \<comment> \<open>\<^verbatim>\<open>.startswith\<close> on a value that is not a string\<close>
  | AssertionError
  | NotImplementedError
  | IOError
      \<comment> \<open>\<^verbatim>\<open>open\<close> failed\<close>
  | JSONDecodeError
  | IntValueError
      \<comment> \<open>\<^verbatim>\<open>int(s)\<close> on a string that is no integer literal\<close>
  | AppendToNonList string
      \<comment> \<open>ValueError: Trying to append to non-list setting\<close>
  | AppendNonList string
      \<comment> \<open>ValueError: Trying to append to list with non-list\<close>
  | CrossrefNonString
      \<comment> \<open>ValueError: crossref (if used with lists) can only be used only with lists of strings\<close>
  | CrossrefNumber
      \<comment> \<open>ValueError: crossref cannot be used with numbers and bools\<close>
  | MetaNotStrOrList
      \<comment> \<open>ValueError: A meta directive must either be a string or a list of strings\<close>
  | MetaTypeNotString
      \<comment> \<open>TypeError: meta\_type was not a string\<close>
  | DynamicMeta string
      \<comment> \<open>ValueError: Found meta type ... Please change your metas from dynamic* to lazy*\<close>
  | LazyMetaUnsupported string string
      \<comment> \<open>ValueError: The type of lazy meta variable ... is not supported\<close>
  | MultipleLazy
      \<comment> \<open>ValueError: Multiple lazy directives in a single directive array not supported yet\<close>
  | RenameFailed string
      \<comment> \<open>ValueError: Failed to rename lazy setting which depends on itself\<close>
  | NonLazyAfterLazy
      \<comment> \<open>ValueError: Cannot use a non-lazy meta directive after a lazy one\<close>
  | MetaUnsupported string string
      \<comment> \<open>ValueError: The type of meta variable ... is not supported\<close>
  | LazyLoop
      \<comment> \<open>ValueError: There appears to be a loop of lazy settings\<close>

text \<open>
  What the code takes from outside this file: the file system read by \<^verbatim>\<open>transclude\<close>, the
  JSON parser and printer, \<^verbatim>\<open>str\<close> on a value that is not a string, \<^verbatim>\<open>int\<close> on a string,
  \<^verbatim>\<open>os.path.join\<close>, and \<^verbatim>\<open>hammer_utils.topological_sort\<close>, whose source is not part of
  the files at hand.  Nothing is assumed about any of them.
\<close>

type_synonym graph = "(string \<times> (string list \<times> string list)) list"

record env =
  read_file :: "string \<Rightarrow> string option"
  json_loads :: "string \<Rightarrow> val option"
  json_dumps :: "dict \<Rightarrow> string"
  str_of_val :: "val \<Rightarrow> string"
  int_of_str :: "string \<Rightarrow> int option"
  path_join :: "string \<Rightarrow> string \<Rightarrow> string"
  topological_sort :: "graph \<Rightarrow> string list \<Rightarrow> string list"

definition CONFIG_PATH_KEY :: string where
  "CONFIG_PATH_KEY = ''_config_path''"

definition NEXT_FREE_INDEX_KEY :: string where
  "NEXT_FREE_INDEX_KEY = ''_next_free_index''"

definition has_key :: "dict \<Rightarrow> string \<Rightarrow> bool" where
  "has_key d k = (map_of d k \<noteq> None)"

definition getitem :: "dict \<Rightarrow> string \<Rightarrow> error + val" where
  "getitem d k = (case map_of d k of None \<Rightarrow> Inl (KeyError k) | Some v \<Rightarrow> Inr v)"

definition delitem :: "dict \<Rightarrow> string \<Rightarrow> error + dict" where
  "delitem d k = (if has_key d k then Inr (AList.delete k d) else Inl (KeyError k))"

text \<open>\<^verbatim>\<open>d.update(other)\<close>: the entries of \<^verbatim>\<open>other\<close> are stored one by one, in its order.\<close>

definition dict_update :: "dict \<Rightarrow> dict \<Rightarrow> dict" where
  "dict_update d other = fold (\<lambda>(k, v). AList.update k v) other d"

text \<open>
  Modelled from the spec: \<^verbatim>\<open>hammer_utils.deepdict\<close>, whose source is not among the files;
  the spec says "Copy W into W'".  Values are immutable in the model, so the copy is the
  value itself.
\<close>

definition deepdict :: "dict \<Rightarrow> dict" where
  "deepdict x = x"

subsection \<open>Integers as decimal strings, and \<^verbatim>\<open>int\<close>\<close>

definition digit_char :: "nat \<Rightarrow> char" where
  "digit_char n = ''0123456789'' ! n"

function str_of_nat :: "nat \<Rightarrow> string" where
  "str_of_nat n = (if n < 10 then [digit_char n] else str_of_nat (n div 10) @ [digit_char (n mod 10)])"
  by pat_completeness auto
termination
  by (relation "measure id") auto

declare str_of_nat.simps [simp del]

definition str_of_int :: "int \<Rightarrow> string" where
  "str_of_int i = (if i < 0 then CHR ''-'' # str_of_nat (nat (- i)) else str_of_nat (nat i))"

definition py_int :: "env \<Rightarrow> val \<Rightarrow> error + int" where
  "py_int e v =
     (case v of
        VInt n \<Rightarrow> Inr n
      | VBool b \<Rightarrow> Inr (if b then 1 else 0)
      | VStr s \<Rightarrow> (case int_of_str e s of None \<Rightarrow> Inl IntValueError | Some n \<Rightarrow> Inr n)
      | _ \<Rightarrow> Inl TypeError)"

definition get_next_free_index :: "env \<Rightarrow> dict \<Rightarrow> error + (int \<times> dict)" where
  "get_next_free_index e d =
     (let d1 = (if \<not> has_key d NEXT_FREE_INDEX_KEY
                then AList.update NEXT_FREE_INDEX_KEY (VInt 1) d else d)
      in case getitem d1 NEXT_FREE_INDEX_KEY of
           Inl err \<Rightarrow> Inl err
         | Inr v \<Rightarrow>
             (case py_int e v of
                Inl err \<Rightarrow> Inl err
              | Inr next_index \<Rightarrow>
                  Inr (next_index, AList.update NEXT_FREE_INDEX_KEY (VInt (next_index + 1)) d1)))"

subsection \<open>The variable expansion regular expression\<close>

text \<open>
  \<^verbatim>\<open>__VARIABLE_EXPANSION_REGEX = r'\${([a-zA-Z_\-\d.]+)}'\<close>.  The closing brace is not in
  the character class, so a match at a position exists exactly when \<^verbatim>\<open>${\<close> is followed by a
  non-empty maximal run of class characters and then \<^verbatim>\<open>}\<close>; backtracking to a shorter run
  never helps.  \<^verbatim>\<open>re.sub\<close> and \<^verbatim>\<open>re.finditer\<close> scan from the left and continue after each
  match.
\<close>

definition var_char :: "char \<Rightarrow> bool" where
  "var_char c \<longleftrightarrow>
     (CHR ''a'' \<le> c \<and> c \<le> CHR ''z'') \<or> (CHR ''A'' \<le> c \<and> c \<le> CHR ''Z'') \<or>
     c = CHR ''_'' \<or> c = CHR ''-'' \<or> (CHR ''0'' \<le> c \<and> c \<le> CHR ''9'') \<or> c = CHR ''.''"

fun match_here :: "string \<Rightarrow> (string \<times> string) option" where
  "match_here (c1 # c2 # s) =
     (if c1 = CHR ''$'' \<and> c2 = CHR ''{'' then
        (case dropWhile var_char s of
           [] \<Rightarrow> None
         | c # rest \<Rightarrow>
             if takeWhile var_char s \<noteq> [] \<and> c = CHR ''}''
             then Some (takeWhile var_char s, rest) else None)
      else None)"
| "match_here _ = None"

lemma match_here_shorter:
  "match_here s = Some (name, rest) \<Longrightarrow> length rest < length s"
proof (cases s rule: match_here.cases)
  case (1 c1 c2 s')
  assume m: "match_here s = Some (name, rest)"
  from m 1 obtain c where "dropWhile var_char s' = c # rest"
    by (auto split: if_splits list.splits)
  then have "length rest < length (dropWhile var_char s')" by simp
  also have "\<dots> \<le> length s'" by (rule length_dropWhile_le)
  finally show ?thesis using 1 by simp
qed simp_all

function find_matches :: "string \<Rightarrow> string list" where
  "find_matches [] = []"
| "find_matches (c # cs) =
     (case match_here (c # cs) of
        Some (name, rest) \<Rightarrow> name # find_matches rest
      | None \<Rightarrow> find_matches cs)"
  by pat_completeness auto
termination
  by (relation "measure length") (auto dest: match_here_shorter)

text \<open>
  \<^verbatim>\<open>re.sub\<close> with a function: the function is called at each match, from the left, and may
  raise; the pieces are joined at the end.  A piece that is \<^verbatim>\<open>None\<close> is skipped, any other
  piece that is not a string makes the join fail with a \<^verbatim>\<open>TypeError\<close>.
\<close>

function sub_pieces :: "(string \<Rightarrow> error + val) \<Rightarrow> string \<Rightarrow> error + val list" where
  "sub_pieces repl [] = Inr []"
| "sub_pieces repl (c # cs) =
     (case match_here (c # cs) of
        Some (name, rest) \<Rightarrow>
          (case repl name of
             Inl err \<Rightarrow> Inl err
           | Inr v \<Rightarrow>
               (case sub_pieces repl rest of
                  Inl err \<Rightarrow> Inl err
                | Inr ps \<Rightarrow> Inr (v # ps)))
      | None \<Rightarrow>
          (case sub_pieces repl cs of
             Inl err \<Rightarrow> Inl err
           | Inr ps \<Rightarrow> Inr (VStr [c] # ps)))"
  by pat_completeness auto
termination
  by (relation "measure (\<lambda>(repl, s). length s)") (auto dest: match_here_shorter)

fun join_pieces :: "val list \<Rightarrow> error + string" where
  "join_pieces [] = Inr []"
| "join_pieces (VStr s # ps) =
     (case join_pieces ps of Inl err \<Rightarrow> Inl err | Inr r \<Rightarrow> Inr (s @ r))"
| "join_pieces (VNull # ps) = join_pieces ps"
| "join_pieces (_ # ps) = Inl TypeError"

definition subst_str :: "val \<Rightarrow> (string \<Rightarrow> error + val) \<Rightarrow> error + string" where
  "subst_str input_str replacement_func =
     (case input_str of
        VStr s \<Rightarrow>
          (case sub_pieces replacement_func s of
             Inl err \<Rightarrow> Inl err
           | Inr ps \<Rightarrow> join_pieces ps)
      | _ \<Rightarrow> Inl TypeError)"


section \<open>The meta directives\<close>

record meta_directive_params =
  meta_path :: val

record meta_directive =
  action :: "dict \<Rightarrow> string \<Rightarrow> val \<Rightarrow> meta_directive_params \<Rightarrow> error + dict"
  target_settings :: "string \<Rightarrow> val \<Rightarrow> error + string list"
  rename_target :: "string \<Rightarrow> val \<Rightarrow> string \<Rightarrow> string \<Rightarrow> error + (val \<times> string) option"

text \<open>\<^verbatim>\<open>list(map(f, xs))\<close> where \<^verbatim>\<open>f\<close> may raise: the first failure is the result.\<close>

fun map_err :: "('a \<Rightarrow> error + 'b) \<Rightarrow> 'a list \<Rightarrow> error + 'b list" where
  "map_err f [] = Inr []"
| "map_err f (x # xs) =
     (case f x of
        Inl err \<Rightarrow> Inl err
      | Inr y \<Rightarrow> (case map_err f xs of Inl err \<Rightarrow> Inl err | Inr ys \<Rightarrow> Inr (y # ys)))"

text \<open>Python's \<^verbatim>\<open>+\<close> on the values of the model.\<close>

fun py_add :: "val \<Rightarrow> val \<Rightarrow> error + val" where
  "py_add (VList xs) (VList ys) = Inr (VList (xs @ ys))"
| "py_add (VStr s) (VStr t) = Inr (VStr (s @ t))"
| "py_add (VInt a) (VInt b) = Inr (VInt (a + b))"
| "py_add (VInt a) (VBool b) = Inr (VInt (a + (if b then 1 else 0)))"
| "py_add (VBool a) (VInt b) = Inr (VInt ((if a then 1 else 0) + b))"
| "py_add (VBool a) (VBool b) = Inr (VInt ((if a then 1 else 0) + (if b then 1 else 0)))"
| "py_add _ _ = Inl TypeError"

subsection \<open>append\<close>

definition append_action :: "dict \<Rightarrow> string \<Rightarrow> val \<Rightarrow> meta_directive_params \<Rightarrow> error + dict" where
  "append_action config_dict key value params =
     (let config_dict1 = (if \<not> has_key config_dict key
                          then AList.update key (VList []) config_dict else config_dict)
      in case getitem config_dict1 key of
           Inl err \<Rightarrow> Inl err
         | Inr (VList cur) \<Rightarrow>
             (case value of
                VList new \<Rightarrow> Inr (AList.update key (VList (cur @ new)) config_dict1)
              | _ \<Rightarrow> Inl (AppendNonList key))
         | Inr _ \<Rightarrow> Inl (AppendToNonList key))"

definition append_rename :: "string \<Rightarrow> val \<Rightarrow> string \<Rightarrow> string \<Rightarrow> error + (val \<times> string) option" where
  "append_rename key value target_setting replacement_setting =
     Inr (Some (VList [VStr replacement_setting, value], ''crossappend''))"

subsection \<open>crossappend\<close>

definition crossappend_decode :: "val \<Rightarrow> error + (string \<times> val list)" where
  "crossappend_decode value =
     (case value of
        VList [VStr target_setting, VList append_value] \<Rightarrow> Inr (target_setting, append_value)
      | _ \<Rightarrow> Inl AssertionError)"

definition crossappend_action :: "dict \<Rightarrow> string \<Rightarrow> val \<Rightarrow> meta_directive_params \<Rightarrow> error + dict" where
  "crossappend_action config_dict key value params =
     (case crossappend_decode value of
        Inl err \<Rightarrow> Inl err
      | Inr (target_setting, append_value) \<Rightarrow>
          (case getitem config_dict target_setting of
             Inl err \<Rightarrow> Inl err
           | Inr base \<Rightarrow>
               (case py_add base (VList append_value) of
                  Inl err \<Rightarrow> Inl err
                | Inr v \<Rightarrow> Inr (AList.update key v config_dict))))"

definition crossappend_targets :: "string \<Rightarrow> val \<Rightarrow> error + string list" where
  "crossappend_targets key value =
     (case crossappend_decode value of
        Inl err \<Rightarrow> Inl err
      | Inr (target_setting, append_value) \<Rightarrow> Inr [target_setting])"

definition crossappend_rename :: "string \<Rightarrow> val \<Rightarrow> string \<Rightarrow> string \<Rightarrow> error + (val \<times> string) option" where
  "crossappend_rename key value target_setting replacement_setting =
     (case crossappend_decode value of
        Inl err \<Rightarrow> Inl err
      | Inr (crossappend_target, append_value) \<Rightarrow>
          Inr (Some (VList [VStr (if crossappend_target = target_setting
                                  then replacement_setting else crossappend_target),
                            VList append_value], ''crossappend'')))"

subsection \<open>crossappendref\<close>

definition crossappendref_decode :: "val \<Rightarrow> error + (string \<times> string)" where
  "crossappendref_decode value =
     (case value of
        VList [VStr target_key, VStr append_key] \<Rightarrow> Inr (target_key, append_key)
      | _ \<Rightarrow> Inl AssertionError)"

definition crossappendref_action :: "dict \<Rightarrow> string \<Rightarrow> val \<Rightarrow> meta_directive_params \<Rightarrow> error + dict" where
  "crossappendref_action config_dict key value params =
     (case crossappendref_decode value of
        Inl err \<Rightarrow> Inl err
      | Inr (target_setting, append_setting) \<Rightarrow>
          (case getitem config_dict target_setting of
             Inl err \<Rightarrow> Inl err
           | Inr base \<Rightarrow>
               (case getitem config_dict append_setting of
                  Inl err \<Rightarrow> Inl err
                | Inr app \<Rightarrow>
                    (case py_add base app of
                       Inl err \<Rightarrow> Inl err
                     | Inr v \<Rightarrow> Inr (AList.update key v config_dict)))))"

definition crossappendref_targets :: "string \<Rightarrow> val \<Rightarrow> error + string list" where
  "crossappendref_targets key value =
     (case crossappendref_decode value of
        Inl err \<Rightarrow> Inl err
      | Inr (target_setting, append_setting) \<Rightarrow> Inr [target_setting, append_setting])"

definition crossappendref_rename :: "string \<Rightarrow> val \<Rightarrow> string \<Rightarrow> string \<Rightarrow> error + (val \<times> string) option" where
  "crossappendref_rename key value target_setting replacement_setting =
     (case crossappendref_decode value of
        Inl err \<Rightarrow> Inl err
      | Inr (target, append_key) \<Rightarrow>
          (let replace_if_target_setting =
                 (\<lambda>setting. if setting = target_setting then replacement_setting else setting)
           in Inr (Some (VList [VStr (replace_if_target_setting target),
                                VStr (replace_if_target_setting append_key)], ''crossappendref''))))"

subsection \<open>subst\<close>

definition perform_subst :: "dict \<Rightarrow> val \<Rightarrow> error + val" where
  "perform_subst config_dict value =
     (case value of
        VList l \<Rightarrow>
          (case map_err (\<lambda>input_str. subst_str input_str (getitem config_dict)) l of
             Inl err \<Rightarrow> Inl err
           | Inr strs \<Rightarrow> Inr (VList (map VStr strs)))
      | _ \<Rightarrow>
          (case subst_str value (getitem config_dict) of
             Inl err \<Rightarrow> Inl err
           | Inr s \<Rightarrow> Inr (VStr s)))"

definition subst_action :: "dict \<Rightarrow> string \<Rightarrow> val \<Rightarrow> meta_directive_params \<Rightarrow> error + dict" where
  "subst_action config_dict key value params =
     (case perform_subst config_dict value of
        Inl err \<Rightarrow> Inl err
      | Inr v \<Rightarrow> Inr (AList.update key v config_dict))"

definition subst_targets :: "string \<Rightarrow> val \<Rightarrow> error + string list" where
  "subst_targets key value =
     (case value of
        VStr s \<Rightarrow> Inr (find_matches s)
      | _ \<Rightarrow> Inl AssertionError)"

text \<open>
  The replacement function of \<^verbatim>\<open>subst_rename\<close> is
  \<^verbatim>\<open>lambda key: "${" + replacement_setting + "}" if key == target_setting else key\<close>,
  which Python reads as \<^verbatim>\<open>("${" + replacement_setting + "}") if ... else key\<close>.
\<close>

definition subst_rename :: "string \<Rightarrow> val \<Rightarrow> string \<Rightarrow> string \<Rightarrow> error + (val \<times> string) option" where
  "subst_rename key value target_setting replacement_setting =
     (case value of
        VStr s \<Rightarrow>
          (case subst_targets key value of
             Inl err \<Rightarrow> Inl err
           | Inr targets \<Rightarrow>
               if target_setting \<notin> set targets then Inr None
               else
                 (case subst_str value
                         (\<lambda>key. Inr (VStr (if key = target_setting
                                            then ''${'' @ replacement_setting @ ''}'' else key))) of
                    Inl err \<Rightarrow> Inl err
                  | Inr new_value \<Rightarrow> Inr (Some (VStr new_value, ''subst''))))
      | _ \<Rightarrow> Inl AssertionError)"

subsection \<open>crossref\<close>

definition crossref_check_and_cast :: "val \<Rightarrow> error + string" where
  "crossref_check_and_cast k = (case k of VStr s \<Rightarrow> Inr s | _ \<Rightarrow> Inl CrossrefNonString)"

definition crossref_action :: "dict \<Rightarrow> string \<Rightarrow> val \<Rightarrow> meta_directive_params \<Rightarrow> error + dict" where
  "crossref_action config_dict key value params =
     (case value of
        VStr s \<Rightarrow>
          (case getitem config_dict s of
             Inl err \<Rightarrow> Inl err
           | Inr v \<Rightarrow> Inr (AList.update key v config_dict))
      | VList l \<Rightarrow>
          (case map_err (\<lambda>k. case crossref_check_and_cast k of
                                Inl err \<Rightarrow> Inl err
                              | Inr s \<Rightarrow> getitem config_dict s) l of
             Inl err \<Rightarrow> Inl err
           | Inr vs \<Rightarrow> Inr (AList.update key (VList vs) config_dict))
      | VInt _ \<Rightarrow> Inl CrossrefNumber
      | VBool _ \<Rightarrow> Inl CrossrefNumber
      | _ \<Rightarrow> Inl NotImplementedError)"

definition crossref_targets :: "string \<Rightarrow> val \<Rightarrow> error + string list" where
  "crossref_targets key value =
     (case value of
        VStr s \<Rightarrow> Inr [s]
      | VList l \<Rightarrow> map_err crossref_check_and_cast l
      | VInt _ \<Rightarrow> Inl CrossrefNumber
      | VBool _ \<Rightarrow> Inl CrossrefNumber
      | _ \<Rightarrow> Inl NotImplementedError)"

definition crossref_rename :: "string \<Rightarrow> val \<Rightarrow> string \<Rightarrow> string \<Rightarrow> error + (val \<times> string) option" where
  "crossref_rename key value target_setting replacement_setting =
     (let change_if_target = (\<lambda>x. if x = target_setting then replacement_setting else x)
      in case value of
           VStr s \<Rightarrow> Inr (Some (VList [VStr (change_if_target s)], ''crossref''))
         | VList l \<Rightarrow>
             (case map_err (\<lambda>k. case crossref_check_and_cast k of
                                   Inl err \<Rightarrow> Inl err
                                 | Inr s \<Rightarrow> Inr (VStr (change_if_target s))) l of
                Inl err \<Rightarrow> Inl err
              | Inr vs \<Rightarrow> Inr (Some (VList vs, ''crossref'')))
         | VInt _ \<Rightarrow> Inl CrossrefNumber
         | VBool _ \<Rightarrow> Inl CrossrefNumber
         | _ \<Rightarrow> Inl NotImplementedError)"

subsection \<open>transclude, json2list, prependlocal\<close>

definition transclude_action ::
  "env \<Rightarrow> dict \<Rightarrow> string \<Rightarrow> val \<Rightarrow> meta_directive_params \<Rightarrow> error + dict" where
  "transclude_action e config_dict key value params =
     (case value of
        VStr path \<Rightarrow>
          (case read_file e path of
             None \<Rightarrow> Inl IOError
           | Some file_contents \<Rightarrow> Inr (AList.update key (VStr file_contents) config_dict))
      | _ \<Rightarrow> Inl AssertionError)"

definition transclude_rename :: "string \<Rightarrow> val \<Rightarrow> string \<Rightarrow> string \<Rightarrow> error + (val \<times> string) option" where
  "transclude_rename key value target_setting replacement_setting = Inr (Some (value, ''transclude''))"

definition json2list_action ::
  "env \<Rightarrow> dict \<Rightarrow> string \<Rightarrow> val \<Rightarrow> meta_directive_params \<Rightarrow> error + dict" where
  "json2list_action e config_dict key value params =
     (case value of
        VStr s \<Rightarrow>
          (case json_loads e s of
             None \<Rightarrow> Inl JSONDecodeError
           | Some (VList parsed) \<Rightarrow> Inr (AList.update key (VList parsed) config_dict)
           | Some _ \<Rightarrow> Inl AssertionError)
      | _ \<Rightarrow> Inl AssertionError)"

definition json2list_rename :: "string \<Rightarrow> val \<Rightarrow> string \<Rightarrow> string \<Rightarrow> error + (val \<times> string) option" where
  "json2list_rename key value target_setting replacement_setting = Inr (Some (value, ''json2list''))"

definition py_str :: "env \<Rightarrow> val \<Rightarrow> string" where
  "py_str e v = (case v of VStr s \<Rightarrow> s | _ \<Rightarrow> str_of_val e v)"

definition prependlocal_action ::
  "env \<Rightarrow> dict \<Rightarrow> string \<Rightarrow> val \<Rightarrow> meta_directive_params \<Rightarrow> error + dict" where
  "prependlocal_action e config_dict key value params =
     (case meta_path params of
        VStr dir \<Rightarrow> Inr (AList.update key (VStr (path_join e dir (py_str e value))) config_dict)
      | _ \<Rightarrow> Inl TypeError)"

definition prependlocal_rename :: "string \<Rightarrow> val \<Rightarrow> string \<Rightarrow> string \<Rightarrow> error + (val \<times> string) option" where
  "prependlocal_rename key value target_setting replacement_setting = Inr (Some (value, ''prependlocal''))"

subsection \<open>The registry\<close>

definition get_meta_directives :: "env \<Rightarrow> (string \<times> meta_directive) list" where
  "get_meta_directives e =
     [(''append'',
         \<lparr>action = append_action,
          target_settings = (\<lambda>key value. Inr [key]),
          rename_target = append_rename\<rparr>),
      (''crossappend'',
         \<lparr>action = crossappend_action,
          target_settings = crossappend_targets,
          rename_target = crossappend_rename\<rparr>),
      (''crossappendref'',
         \<lparr>action = crossappendref_action,
          target_settings = crossappendref_targets,
          rename_target = crossappendref_rename\<rparr>),
      (''subst'',
         \<lparr>action = subst_action,
          target_settings = subst_targets,
          rename_target = subst_rename\<rparr>),
      (''crossref'',
         \<lparr>action = crossref_action,
          target_settings = crossref_targets,
          rename_target = crossref_rename\<rparr>),
      (''transclude'',
         \<lparr>action = transclude_action e,
          target_settings = (\<lambda>key value. Inr []),
          rename_target = transclude_rename\<rparr>),
      (''json2list'',
         \<lparr>action = json2list_action e,
          target_settings = (\<lambda>key value. Inr []),
          rename_target = json2list_rename\<rparr>),
      (''prependlocal'',
         \<lparr>action = prependlocal_action e,
          target_settings = (\<lambda>key value. Inr []),
          rename_target = prependlocal_rename\<rparr>)]"


section \<open>Flattening\<close>

definition real_prefix_of :: "string \<Rightarrow> string" where
  "real_prefix_of pfx = (if pfx = [] then [] else pfx @ ''.'')"

lemma size_sub_dict_less:
  "size_list (size_prod (\<lambda>_. 0) size) sub
     < size_list (size_prod (\<lambda>_. 0) size) ((key, VDict sub) # rest)"
  by simp

text \<open>
  The loop of \<^verbatim>\<open>unpack\<close> over \<^verbatim>\<open>config_dict.items()\<close>, with the prefix already turned
  into \<^verbatim>\<open>real_prefix\<close>; a nested mapping is unpacked into a dictionary of its own, which
  then updates the output.
\<close>

function unpack_items :: "string \<Rightarrow> dict \<Rightarrow> dict \<Rightarrow> dict" where
  "unpack_items real_prefix [] output_dict = output_dict"
| "unpack_items real_prefix ((key, value) # rest) output_dict =
     unpack_items real_prefix rest
       (case value of
          VDict sub \<Rightarrow>
            dict_update output_dict
              (unpack_items (real_prefix_of (real_prefix @ key)) sub [])
        | _ \<Rightarrow> AList.update (real_prefix @ key) value output_dict)"
  by pat_completeness auto
termination
  by (relation "measure (\<lambda>(real_prefix, items, output_dict).
        size_list (size_prod (\<lambda>_. 0) size) items)")
     (auto simp: size_sub_dict_less)

definition unpack :: "dict \<Rightarrow> string \<Rightarrow> dict" where
  "unpack config_dict pfx = unpack_items (real_prefix_of pfx) config_dict []"

text \<open>\<^verbatim>\<open>key.split(".")\<close>: it never returns the empty list.\<close>

fun py_split :: "char \<Rightarrow> string \<Rightarrow> string list" where
  "py_split sep [] = [[]]"
| "py_split sep (c # cs) =
     (if c = sep then [] # py_split sep cs
      else (case py_split sep cs of
              [] \<Rightarrow> [[c]]
            | part # parts \<Rightarrow> (c # part) # parts))"

text \<open>
  \<^verbatim>\<open>get_subdict(parts, current_root)\<close> followed by \<^verbatim>\<open>containing_dict[last] = value\<close>.
  The source walks down object references and mutates the innermost dictionary; here the
  changed dictionaries are rebuilt on the way back.  A value on the path that is not a
  dictionary makes Python raise a \<^verbatim>\<open>TypeError\<close> in every case.
\<close>

fun set_path :: "string list \<Rightarrow> string \<Rightarrow> val \<Rightarrow> dict \<Rightarrow> error + dict" where
  "set_path [] last_part value current_root = Inr (AList.update last_part value current_root)"
| "set_path (part # parts) last_part value current_root =
     (let root1 = (if \<not> has_key current_root part
                   then AList.update part (VDict []) current_root else current_root)
      in case getitem root1 part of
           Inl err \<Rightarrow> Inl err
         | Inr (VDict sub) \<Rightarrow>
             (case set_path parts last_part value sub of
                Inl err \<Rightarrow> Inl err
              | Inr sub1 \<Rightarrow> Inr (AList.update part (VDict sub1) root1))
         | Inr _ \<Rightarrow> Inl TypeError)"

fun reverse_unpack_items :: "dict \<Rightarrow> dict \<Rightarrow> error + dict" where
  "reverse_unpack_items [] output_dict = Inr output_dict"
| "reverse_unpack_items ((key, value) # rest) output_dict =
     (let key_parts = py_split (CHR ''.'') key
      in if length key_parts \<ge> 1 then
           (case set_path (butlast key_parts) (last key_parts) value output_dict of
              Inl err \<Rightarrow> Inl err
            | Inr output_dict1 \<Rightarrow> reverse_unpack_items rest output_dict1)
         else Inl AssertionError)"

definition reverse_unpack :: "dict \<Rightarrow> error + dict" where
  "reverse_unpack input_dict = reverse_unpack_items input_dict []"

section \<open>The eager evaluator\<close>

definition ends_with_meta :: "string \<Rightarrow> bool" where
  "ends_with_meta k = suffix ''_meta'' k"

text \<open>\<^verbatim>\<open>meta_key[:-meta_len]\<close> with \<^verbatim>\<open>meta_len = len("_meta")\<close>.\<close>

definition setting_of :: "string \<Rightarrow> string" where
  "setting_of meta_key = take (length meta_key - 5) meta_key"

text \<open>
  The body of the branch \<^verbatim>\<open>if meta_type.startswith("lazy")\<close> after the directive has been
  found in the registry and \<^verbatim>\<open>seen_lazy\<close> has been checked: it returns \<^verbatim>\<open>newdict\<close> after
  \<^verbatim>\<open>newdict.update(update_dict)\<close>.
\<close>

definition lazy_directive ::
  "env \<Rightarrow> meta_directive \<Rightarrow> string \<Rightarrow> string \<Rightarrow> dict \<Rightarrow> dict \<Rightarrow> error + dict" where
  "lazy_directive e d setting meta_type newdict meta_dict =
     (case getitem meta_dict setting of
        Inl err \<Rightarrow> Inl err
      | Inr value \<Rightarrow>
          (case target_settings d setting value of
             Inl err \<Rightarrow> Inl err
           | Inr targets \<Rightarrow>
               if length (filter (\<lambda>x. x = setting) targets) > 0 then
                 (case get_next_free_index e newdict of
                    Inl err \<Rightarrow> Inl err
                  | Inr (next_index, newdict1) \<Rightarrow>
                      (let new_base_setting = setting @ ''_'' @ str_of_int next_index
                       in case rename_target d setting value setting new_base_setting of
                            Inl err \<Rightarrow> Inl err
                          | Inr None \<Rightarrow> Inl (RenameFailed setting)
                          | Inr (Some (new_value, new_meta)) \<Rightarrow>
                              (case getitem newdict1 setting of
                                 Inl err \<Rightarrow> Inl err
                               | Inr old \<Rightarrow>
                                   (let update_dict =
                                          dict_update []
                                            [(new_base_setting, old),
                                             (setting, new_value),
                                             (setting @ ''_meta'', VStr (''lazy'' @ new_meta))];
                                        update_dict1 =
                                          (case map_of newdict1 (setting @ ''_meta'') of
                                             None \<Rightarrow> update_dict
                                           | Some old_meta \<Rightarrow>
                                               dict_update update_dict
                                                 [(new_base_setting @ ''_meta'', old_meta)])
                                    in Inr (dict_update newdict1 update_dict1)))))
               else
                 Inr (dict_update newdict
                        (dict_update [] [(setting, value), (setting @ ''_meta'', VStr meta_type)]))))"

text \<open>The eager case: look the action up, run it on \<^verbatim>\<open>newdict\<close>, copy the result back.\<close>

definition eager_directive ::
  "env \<Rightarrow> string \<Rightarrow> string \<Rightarrow> string \<Rightarrow> dict \<Rightarrow> dict \<Rightarrow> error + (dict \<times> dict)" where
  "eager_directive e meta_key setting meta_type newdict meta_dict =
     (case map_of (get_meta_directives e) meta_type of
        None \<Rightarrow> Inl (MetaUnsupported meta_key meta_type)
      | Some d \<Rightarrow>
          (case getitem meta_dict setting of
             Inl err \<Rightarrow> Inl err
           | Inr value \<Rightarrow>
               (case action d newdict setting value
                       \<lparr>meta_path = (case map_of meta_dict CONFIG_PATH_KEY of
                                       None \<Rightarrow> VStr ''unspecified''
                                     | Some p \<Rightarrow> p)\<rparr> of
                  Inl err \<Rightarrow> Inl err
                | Inr newdict1 \<Rightarrow>
                    (case getitem newdict1 setting of
                       Inl err \<Rightarrow> Inl err
                     | Inr v \<Rightarrow> Inr (newdict1, AList.update setting v meta_dict)))))"

text \<open>The loop \<^verbatim>\<open>for meta_type in meta_directives\<close>, with its state made explicit.\<close>

fun process_directives ::
  "env \<Rightarrow> string \<Rightarrow> string \<Rightarrow> val list \<Rightarrow> bool \<Rightarrow> dict \<Rightarrow> dict \<Rightarrow> error + (dict \<times> dict)" where
  "process_directives e meta_key setting [] seen_lazy newdict meta_dict = Inr (newdict, meta_dict)"
| "process_directives e meta_key setting (mt # rest) seen_lazy newdict meta_dict =
     (case mt of
        VStr meta_type \<Rightarrow>
          if prefix ''dynamic'' meta_type then Inl (DynamicMeta meta_type)
          else if prefix ''lazy'' meta_type then
            (case map_of (get_meta_directives e) (drop 4 meta_type) of
               None \<Rightarrow> Inl (LazyMetaUnsupported meta_key meta_type)
             | Some d \<Rightarrow>
                 if seen_lazy then Inl MultipleLazy
                 else
                   (case lazy_directive e d setting meta_type newdict meta_dict of
                      Inl err \<Rightarrow> Inl err
                    | Inr newdict1 \<Rightarrow>
                        process_directives e meta_key setting rest True newdict1 meta_dict))
          else if seen_lazy then Inl NonLazyAfterLazy
          else
            (case eager_directive e meta_key setting meta_type newdict meta_dict of
               Inl err \<Rightarrow> Inl err
             | Inr (newdict1, meta_dict1) \<Rightarrow>
                 process_directives e meta_key setting rest seen_lazy newdict1 meta_dict1)
      | _ \<Rightarrow> Inl MetaTypeNotString)"

definition meta_directives_of :: "val \<Rightarrow> error + val list" where
  "meta_directives_of meta_type_from_dict =
     (case meta_type_from_dict of
        VStr s \<Rightarrow> Inr [VStr s]
      | VList l \<Rightarrow> Inr l
      | _ \<Rightarrow> Inl MetaNotStrOrList)"

text \<open>The loop \<^verbatim>\<open>for meta_key in meta_keys\<close>; it returns \<^verbatim>\<open>newdict\<close> and \<^verbatim>\<open>meta_dict\<close>.\<close>

fun process_meta_keys :: "env \<Rightarrow> string list \<Rightarrow> dict \<Rightarrow> dict \<Rightarrow> error + (dict \<times> dict)" where
  "process_meta_keys e [] newdict meta_dict = Inr (newdict, meta_dict)"
| "process_meta_keys e (meta_key # rest) newdict meta_dict =
     (case getitem meta_dict meta_key of
        Inl err \<Rightarrow> Inl err
      | Inr meta_type_from_dict \<Rightarrow>
          (case meta_directives_of meta_type_from_dict of
             Inl err \<Rightarrow> Inl err
           | Inr meta_directives \<Rightarrow>
               (case process_directives e meta_key (setting_of meta_key) meta_directives False
                       newdict meta_dict of
                  Inl err \<Rightarrow> Inl err
                | Inr (newdict1, meta_dict1) \<Rightarrow>
                    (case delitem meta_dict1 meta_key of
                       Inl err \<Rightarrow> Inl err
                     | Inr meta_dict2 \<Rightarrow>
                         (case delitem meta_dict2 (setting_of meta_key) of
                            Inl err \<Rightarrow> Inl err
                          | Inr meta_dict3 \<Rightarrow> process_meta_keys e rest newdict1 meta_dict3)))))"

text \<open>
  \<^verbatim>\<open>update_and_expand_meta\<close> up to the end of its loop: the working dictionary and what is
  left of the local copy of the provider.
\<close>

definition expand_meta_loop :: "env \<Rightarrow> dict \<Rightarrow> dict \<Rightarrow> error + (dict \<times> dict)" where
  "expand_meta_loop e config_dict meta_dict0 =
     (let newdict = deepdict config_dict;
          meta_dict = deepdict meta_dict0;
          meta_dict_keys = map fst meta_dict;
          meta_keys = filter ends_with_meta meta_dict_keys
      in process_meta_keys e meta_keys newdict meta_dict)"

definition update_and_expand_meta :: "env \<Rightarrow> dict \<Rightarrow> dict \<Rightarrow> error + dict" where
  "update_and_expand_meta e config_dict meta_dict0 =
     (case expand_meta_loop e config_dict meta_dict0 of
        Inl err \<Rightarrow> Inl err
      | Inr (newdict, meta_dict) \<Rightarrow> Inr (dict_update newdict (deepdict meta_dict)))"

section \<open>Resolution: folding the providers and the lazy scheduler\<close>

text \<open>\<^verbatim>\<open>functools.reduce\<close> with a function that may raise.\<close>

fun reduce_err :: "('b \<Rightarrow> 'a \<Rightarrow> error + 'b) \<Rightarrow> 'a list \<Rightarrow> 'b \<Rightarrow> error + 'b" where
  "reduce_err f [] acc = Inr acc"
| "reduce_err f (x # xs) acc =
     (case f acc x of Inl err \<Rightarrow> Inl err | Inr acc1 \<Rightarrow> reduce_err f xs acc1)"

definition ensure_node :: "graph \<Rightarrow> string \<Rightarrow> graph" where
  "ensure_node g n = (if map_of g n = None then AList.update n ([], []) g else g)"

text \<open>The loop over the targets of one lazy setting.\<close>

fun add_targets :: "dict \<Rightarrow> string \<Rightarrow> string list \<Rightarrow> graph \<Rightarrow> graph" where
  "add_targets expanded_config_orig setting [] g = g"
| "add_targets expanded_config_orig setting (target_var # rest) g =
     (if has_key expanded_config_orig (target_var @ ''_meta'') then
        (let g1 = ensure_node g target_var;
             g2 = AList.map_entry target_var (\<lambda>(outgoing, incoming). (outgoing @ [setting], incoming)) g1;
             g3 = AList.map_entry setting (\<lambda>(outgoing, incoming). (outgoing, incoming @ [target_var])) g2
         in add_targets expanded_config_orig setting rest g3)
      else add_targets expanded_config_orig setting rest g)"

text \<open>
  The loop \<^verbatim>\<open>for meta_key in meta_keys\<close> of \<^verbatim>\<open>combine_configs\<close>; its state is
  \<^verbatim>\<open>expanded_config\<close>, \<^verbatim>\<open>lazy_metas\<close> and \<^verbatim>\<open>graph\<close>.
\<close>

fun collect_lazy ::
  "env \<Rightarrow> dict \<Rightarrow> string list \<Rightarrow> dict \<Rightarrow> dict \<Rightarrow> graph \<Rightarrow> error + (dict \<times> dict \<times> graph)" where
  "collect_lazy e expanded_config_orig [] expanded_config lazy_metas g =
     Inr (expanded_config, lazy_metas, g)"
| "collect_lazy e expanded_config_orig (meta_key # rest) expanded_config lazy_metas g =
     (case getitem expanded_config meta_key of
        Inl err \<Rightarrow> Inl err
      | Inr (VStr lazy_meta_type) \<Rightarrow>
          if \<not> prefix ''lazy'' lazy_meta_type then Inl AssertionError
          else
            (case getitem expanded_config (setting_of meta_key) of
               Inl err \<Rightarrow> Inl err
             | Inr value \<Rightarrow>
                 (case map_of (get_meta_directives e) (drop 4 lazy_meta_type) of
                    None \<Rightarrow> Inl (KeyError (drop 4 lazy_meta_type))
                  | Some d \<Rightarrow>
                      (case target_settings d (setting_of meta_key) value of
                         Inl err \<Rightarrow> Inl err
                       | Inr targets \<Rightarrow>
                           (case delitem expanded_config meta_key of
                              Inl err \<Rightarrow> Inl err
                            | Inr expanded_config1 \<Rightarrow>
                                (case delitem expanded_config1 (setting_of meta_key) of
                                   Inl err \<Rightarrow> Inl err
                                 | Inr expanded_config2 \<Rightarrow>
                                     collect_lazy e expanded_config_orig rest expanded_config2
                                       (AList.update (setting_of meta_key) value
                                          (AList.update meta_key (VStr (drop 4 lazy_meta_type)) lazy_metas))
                                       (add_targets expanded_config_orig (setting_of meta_key) targets
                                          (ensure_node g (setting_of meta_key))))))))
      | Inr _ \<Rightarrow> Inl AttributeError)"

definition starting_nodes_of :: "graph \<Rightarrow> string list" where
  "starting_nodes_of g =
     sort (map fst (filter (\<lambda>key_val. length (snd (snd key_val)) = 0) g))"

definition combine_meta :: "env \<Rightarrow> dict \<Rightarrow> dict \<Rightarrow> string \<Rightarrow> error + dict" where
  "combine_meta e lazy_metas config_dict meta_setting =
     (case getitem lazy_metas meta_setting of
        Inl err \<Rightarrow> Inl err
      | Inr v \<Rightarrow>
          (case getitem lazy_metas (meta_setting @ ''_meta'') of
             Inl err \<Rightarrow> Inl err
           | Inr m \<Rightarrow>
               update_and_expand_meta e config_dict
                 (dict_update [] [(meta_setting, v), (meta_setting @ ''_meta'', m)])))"

definition internal_keys :: "string set" where
  "internal_keys = {CONFIG_PATH_KEY, NEXT_FREE_INDEX_KEY}"

text \<open>
  \<^verbatim>\<open>for key in HammerDatabase.internal_keys(): if key in final_dict: del final_dict[key]\<close>.
  The order in which Python iterates over a set of strings depends on the hash seed of the
  process, so the order is an argument.
\<close>

fun remove_keys :: "string list \<Rightarrow> dict \<Rightarrow> dict" where
  "remove_keys [] final_dict = final_dict"
| "remove_keys (key # rest) final_dict =
     remove_keys rest (if has_key final_dict key then AList.delete key final_dict else final_dict)"

text \<open>The first part of \<^verbatim>\<open>combine_configs\<close>: the fold, then the loop that builds the graph.\<close>

definition fold_configs :: "env \<Rightarrow> dict list \<Rightarrow> error + dict" where
  "fold_configs e configs = reduce_err (update_and_expand_meta e) configs []"

definition lazy_graph :: "env \<Rightarrow> dict \<Rightarrow> error + (dict \<times> dict \<times> graph)" where
  "lazy_graph e expanded_config_reduce =
     (let expanded_config = deepdict expanded_config_reduce;
          expanded_config_orig = deepdict expanded_config;
          meta_dict_keys = map fst expanded_config;
          meta_keys = filter ends_with_meta meta_dict_keys
      in collect_lazy e expanded_config_orig meta_keys expanded_config [] [])"

definition combine_configs :: "env \<Rightarrow> string list \<Rightarrow> dict list \<Rightarrow> error + dict" where
  "combine_configs e key_order configs =
     (case fold_configs e configs of
        Inl err \<Rightarrow> Inl err
      | Inr expanded_config_reduce \<Rightarrow>
          (case lazy_graph e expanded_config_reduce of
             Inl err \<Rightarrow> Inl err
           | Inr (expanded_config, lazy_metas, g) \<Rightarrow>
               (case (if length g > 0 then
                        (let starting_nodes = starting_nodes_of g
                         in if length starting_nodes = 0 then Inl LazyLoop
                            else reduce_err (combine_meta e lazy_metas)
                                   (topological_sort e g starting_nodes) expanded_config)
                      else Inr (deepdict expanded_config)) of
                  Inl err \<Rightarrow> Inl err
                | Inr final_dict \<Rightarrow> Inr (remove_keys key_order final_dict))))"


section \<open>The database\<close>

text \<open>
  The class \<^verbatim>\<open>HammerDatabase\<close>: the lists of providers in increasing precedence, the
  dictionary of the run-time settings, the cached resolved dictionary and its dirty flag.  A
  method that assigns to a field returns the database with that field changed.
\<close>

record hammer_database =
  builtins :: "dict list"
  core :: "dict list"
  tools :: "dict list"
  technology :: "dict list"
  environment :: "dict list"
  project :: "dict list"
  private_runtime :: dict
    \<comment> \<open>\<^verbatim>\<open>self._runtime\<close>\<close>
  config_cache :: dict
  config_cache_dirty :: bool

text \<open>\<^verbatim>\<open>__init__\<close>.\<close>

definition init_database :: hammer_database where
  "init_database =
     \<lparr>builtins = [], core = [], tools = [], technology = [], environment = [], project = [],
      private_runtime = [], config_cache = [], config_cache_dirty = False\<rparr>"

definition runtime :: "hammer_database \<Rightarrow> dict list" where
  "runtime db = [private_runtime db]"

text \<open>
  \<^verbatim>\<open>get_config\<close> returns the dictionary and the database after the call.  When
  \<^verbatim>\<open>combine_configs\<close> raises, no field has been assigned.
\<close>

definition get_config ::
  "env \<Rightarrow> string list \<Rightarrow> hammer_database \<Rightarrow> error + (dict \<times> hammer_database)" where
  "get_config e key_order db =
     (if config_cache_dirty db then
        (case combine_configs e key_order
                ([[]] @ builtins db @ core db @ tools db @ technology db @ environment db @
                 project db @ runtime db) of
           Inl err \<Rightarrow> Inl err
         | Inr config \<Rightarrow>
             Inr (config, db\<lparr>config_cache := config, config_cache_dirty := False\<rparr>))
      else Inr (config_cache db, db))"

text \<open>
  \<^verbatim>\<open>get_database_json\<close>; \<^verbatim>\<open>json_dumps\<close> stands for
  \<^verbatim>\<open>json.dumps(_, sort_keys=True, indent=4, separators=(',', ': '))\<close>.
\<close>

definition get_database_json ::
  "env \<Rightarrow> string list \<Rightarrow> hammer_database \<Rightarrow> error + (string \<times> hammer_database)" where
  "get_database_json e key_order db =
     (case get_config e key_order db of
        Inl err \<Rightarrow> Inl err
      | Inr (config, db1) \<Rightarrow> Inr (json_dumps e config, db1))"

definition set_setting :: "string \<Rightarrow> val \<Rightarrow> hammer_database \<Rightarrow> hammer_database" where
  "set_setting key value db =
     db\<lparr>private_runtime := AList.update key value (private_runtime db),
        config_cache_dirty := True\<rparr>"

definition update_core :: "dict list \<Rightarrow> hammer_database \<Rightarrow> hammer_database" where
  "update_core core_config db = db\<lparr>core := core_config, config_cache_dirty := True\<rparr>"

definition update_tools :: "dict list \<Rightarrow> hammer_database \<Rightarrow> hammer_database" where
  "update_tools tools_config db = db\<lparr>tools := tools_config, config_cache_dirty := True\<rparr>"

definition update_technology :: "dict list \<Rightarrow> hammer_database \<Rightarrow> hammer_database" where
  "update_technology technology_config db =
     db\<lparr>technology := technology_config, config_cache_dirty := True\<rparr>"

definition update_environment :: "dict list \<Rightarrow> hammer_database \<Rightarrow> hammer_database" where
  "update_environment environment_config db =
     db\<lparr>environment := environment_config, config_cache_dirty := True\<rparr>"

definition update_project :: "dict list \<Rightarrow> hammer_database \<Rightarrow> hammer_database" where
  "update_project project_config db = db\<lparr>project := project_config, config_cache_dirty := True\<rparr>"

definition update_builtins :: "dict list \<Rightarrow> hammer_database \<Rightarrow> hammer_database" where
  "update_builtins builtins_config db =
     db\<lparr>builtins := builtins_config, config_cache_dirty := True\<rparr>"


section \<open>Predicates and example environments used in the statements\<close>

definition is_list :: "val \<Rightarrow> bool" where
  "is_list v = (case v of VList _ \<Rightarrow> True | _ \<Rightarrow> False)"

text \<open>
  An environment for concrete evaluations: no file can be read, no string is JSON or an
  integer literal, \<^verbatim>\<open>os.path.join\<close> puts a slash between its arguments, and the
  topological sort returns the start nodes.
\<close>

definition env0 :: env where
  "env0 =
     \<lparr>read_file = (\<lambda>_. None),
      json_loads = (\<lambda>_. None),
      json_dumps = (\<lambda>_. []),
      str_of_val = (\<lambda>_. []),
      int_of_str = (\<lambda>_. None),
      path_join = (\<lambda>a b. a @ ''/'' @ b),
      topological_sort = (\<lambda>g starting_nodes. starting_nodes)\<rparr>"

text \<open>A graph in which every node has an incoming edge.\<close>

definition no_start_node :: "graph \<Rightarrow> bool" where
  "no_start_node g = list_all (\<lambda>(node, outgoing, incoming). incoming \<noteq> []) g"

text \<open>
  The five conditions on a directive list that the spec files under invalid-directive:
  an unknown directive name, a name starting with \<^verbatim>\<open>dynamic\<close>, an entry that is not a
  string, more than one lazy directive, and a directive that is not lazy after a lazy one.
  A name is known when it is in the registry, or starts with \<^verbatim>\<open>lazy\<close> and the rest of it is
  in the registry.
\<close>

definition registered :: "env \<Rightarrow> string \<Rightarrow> bool" where
  "registered e name = (map_of (get_meta_directives e) name \<noteq> None)"

definition is_str :: "val \<Rightarrow> bool" where
  "is_str v = (case v of VStr _ \<Rightarrow> True | _ \<Rightarrow> False)"

definition is_dynamic :: "val \<Rightarrow> bool" where
  "is_dynamic v = (case v of VStr m \<Rightarrow> prefix ''dynamic'' m | _ \<Rightarrow> False)"

definition is_lazy :: "val \<Rightarrow> bool" where
  "is_lazy v = (case v of VStr m \<Rightarrow> prefix ''lazy'' m | _ \<Rightarrow> False)"

definition is_unknown :: "env \<Rightarrow> val \<Rightarrow> bool" where
  "is_unknown e v =
     (case v of
        VStr m \<Rightarrow> \<not> registered e m \<and> \<not> (prefix ''lazy'' m \<and> registered e (drop 4 m))
      | _ \<Rightarrow> False)"

definition invalid_directive_list :: "env \<Rightarrow> val list \<Rightarrow> bool" where
  "invalid_directive_list e ds \<longleftrightarrow>
     list_ex (is_unknown e) ds \<or>
     list_ex is_dynamic ds \<or>
     list_ex (\<lambda>d. \<not> is_str d) ds \<or>
     length (filter is_lazy ds) > 1 \<or>
     list_ex (\<lambda>d. \<not> is_lazy d) (dropWhile (\<lambda>d. \<not> is_lazy d) ds)"

text \<open>The errors of the kind invalid-directive.\<close>

fun invalid_directive :: "error \<Rightarrow> bool" where
  "invalid_directive (MetaUnsupported _ _) = True"
| "invalid_directive (LazyMetaUnsupported _ _) = True"
| "invalid_directive (DynamicMeta _) = True"
| "invalid_directive MetaTypeNotString = True"
| "invalid_directive MultipleLazy = True"
| "invalid_directive NonLazyAfterLazy = True"
| "invalid_directive _ = False"

text \<open>
  The invalid-directive error that an entry of a directive list raises when the loop reaches
  it, given whether a lazy directive came before it; \<open>None\<close> for an entry with none of the
  five conditions.  A name that starts with \<^verbatim>\<open>lazy\<close> is looked up in the registry before
  \<^verbatim>\<open>seen_lazy\<close> is tested; any other name after it.
\<close>

definition directive_error :: "env \<Rightarrow> string \<Rightarrow> bool \<Rightarrow> val \<Rightarrow> error option" where
  "directive_error e meta_key seen_lazy d =
     (if \<not> is_str d then Some MetaTypeNotString
      else if is_dynamic d then Some (DynamicMeta (case d of VStr m \<Rightarrow> m | _ \<Rightarrow> []))
      else if is_unknown e d then
        Some (case d of
                VStr m \<Rightarrow> if is_lazy d then LazyMetaUnsupported meta_key m
                          else if seen_lazy then NonLazyAfterLazy
                          else MetaUnsupported meta_key m
              | _ \<Rightarrow> MetaTypeNotString)
      else if seen_lazy then Some (if is_lazy d then MultipleLazy else NonLazyAfterLazy)
      else None)"

text \<open>
  A nested mapping in which, at every level, the keys are distinct, not empty and free of
  dots, and no nested mapping is empty.  Lists are leaves: \<^verbatim>\<open>unpack\<close> does not look into
  them.
\<close>

function plain_nested :: "dict \<Rightarrow> bool" where
  "plain_nested [] = True"
| "plain_nested ((key, value) # rest) =
     (key \<noteq> [] \<and> CHR ''.'' \<notin> set key \<and> key \<notin> fst ` set rest \<and>
      (case value of VDict sub \<Rightarrow> sub \<noteq> [] \<and> plain_nested sub | _ \<Rightarrow> True) \<and>
      plain_nested rest)"
  by pat_completeness auto
termination
  by (relation "measure (size_list (size_prod (\<lambda>_. 0) size))") (auto simp: size_sub_dict_less)

text \<open>
  For the proof of the round trip: the dictionary found at a path of keys, the replacement of
  the dictionary at a path, the prefix that \<^verbatim>\<open>unpack\<close> builds for a path, and the flat keys
  whose parts start with a path followed by one of the given keys.
\<close>

fun at_path :: "string list \<Rightarrow> dict \<Rightarrow> dict option" where
  "at_path [] root = Some root"
| "at_path (p # ps) root =
     (case map_of root p of Some (VDict sub) \<Rightarrow> at_path ps sub | _ \<Rightarrow> None)"

fun put_path :: "string list \<Rightarrow> dict \<Rightarrow> dict \<Rightarrow> dict" where
  "put_path [] new root = new"
| "put_path (p # ps) new root =
     (case map_of root p of
        Some (VDict sub) \<Rightarrow> AList.update p (VDict (put_path ps new sub)) root
      | _ \<Rightarrow> root)"

definition rpath :: "string list \<Rightarrow> string" where
  "rpath ps = concat (map (\<lambda>p. p @ ''.'') ps)"

definition under :: "string list \<Rightarrow> string set \<Rightarrow> string set" where
  "under ps K = {key. \<exists>k more. k \<in> K \<and> py_split (CHR ''.'') key = ps @ k # more}"

text \<open>
  The dictionary \<^verbatim>\<open>lazy_metas\<close> is well formed when every setting of it that has a meta key is
  not itself a meta key and its meta key holds the name of a registered directive.
\<close>

definition good_lazy_metas :: "env \<Rightarrow> dict \<Rightarrow> bool" where
  "good_lazy_metas e lm \<longleftrightarrow>
     (\<forall>s. has_key lm s \<longrightarrow> has_key lm (s @ ''_meta'') \<longrightarrow>
          \<not> ends_with_meta s \<and> (\<exists>b. map_of lm (s @ ''_meta'') = Some (VStr b) \<and> registered e b))"

text \<open>
  An environment with the files \<^verbatim>\<open>files\<close>, for concrete evaluations; its printer writes
  the keys of the dictionary one after the other.
\<close>

definition env_files :: "(string \<Rightarrow> string option) \<Rightarrow> env" where
  "env_files files = env0\<lparr>read_file := files, json_dumps := (\<lambda>d. concat (map fst d))\<rparr>"

text \<open>Two databases hold the same providers and the same run-time settings.\<close>

definition same_layers :: "hammer_database \<Rightarrow> hammer_database \<Rightarrow> bool" where
  "same_layers db1 db2 \<longleftrightarrow>
     builtins db1 = builtins db2 \<and> core db1 = core db2 \<and> tools db1 = tools db2 \<and>
     technology db1 = technology db2 \<and> environment db1 = environment db2 \<and>
     project db1 = project db2 \<and> private_runtime db1 = private_runtime db2"

section \<open>The append directive\<close>

text \<open>
  C10.  When the target key \<open>k\<close> is absent from the working dictionary, \<^verbatim>\<open>append\<close> with a
  list value \<open>v\<close> succeeds and sets \<open>k\<close> to \<open>v\<close> (the absent key counts as the empty list).
  \<^verbatim>\<open>append_action\<close> raises exactly when \<open>k\<close> is present with a value that is not a list, or
  the value to append is not a list.
\<close>

theorem append_action_absent_key:
  "(\<not> has_key config_dict k \<longrightarrow>
      append_action config_dict k (VList v) params = Inr (AList.update k (VList v) config_dict))
   \<and> (isl (append_action config_dict k value params) \<longleftrightarrow>
        (case map_of config_dict k of None \<Rightarrow> False | Some x \<Rightarrow> \<not> is_list x) \<or> \<not> is_list value)"
  by (auto simp: append_action_def has_key_def getitem_def is_list_def update_conv' Let_def
           split: val.splits option.splits)

theorem append_action_absent_key_witness:
  "\<not> has_key [(''a'', VInt 1)] ''k'' \<and>
   append_action [(''a'', VInt 1)] ''k'' (VList [VInt 2]) \<lparr>meta_path = VNull\<rparr>
     = Inr [(''a'', VInt 1), (''k'', VList [VInt 2])] \<and>
   isl (append_action [(''a'', VInt 1)] ''a'' (VList [VInt 2]) \<lparr>meta_path = VNull\<rparr>) \<and>
   \<not> isl (append_action [(''a'', VList [])] ''a'' (VList [VInt 2]) \<lparr>meta_path = VNull\<rparr>)"
  using append_action_absent_key
          [of "[(''a'', VInt 1)]" "''k''" "[VInt 2]" "\<lparr>meta_path = VNull\<rparr>" "VList [VInt 2]"]
        append_action_absent_key
          [of "[(''a'', VInt 1)]" "''a''" "[VInt 2]" "\<lparr>meta_path = VNull\<rparr>" "VList [VInt 2]"]
        append_action_absent_key
          [of "[(''a'', VList [])]" "''a''" "[VInt 2]" "\<lparr>meta_path = VNull\<rparr>" "VList [VInt 2]"]
  by (simp add: has_key_def is_list_def)

section \<open>Renaming the target of a directive\<close>

text \<open>
  C2.  \<^verbatim>\<open>subst_rename\<close> on \<^verbatim>\<open>"${a}${b}"\<close>, renaming \<^verbatim>\<open>a\<close> to \<^verbatim>\<open>c\<close>, returns
  \<^verbatim>\<open>"${c}b"\<close>: the reference to \<^verbatim>\<open>b\<close> has lost its \<^verbatim>\<open>${...}\<close> and the renamed value
  depends on \<^verbatim>\<open>c\<close> only, where the original depended on \<^verbatim>\<open>a\<close> and \<^verbatim>\<open>b\<close>.
  \<^verbatim>\<open>crossref_rename\<close> on the single string reference \<^verbatim>\<open>"a"\<close> returns the one-element list
  \<^verbatim>\<open>["c"]\<close>, not a string; \<^verbatim>\<open>crossref\<close> applied to a list stores a list of the referenced
  values, so the renamed directive stores \<^verbatim>\<open>[1]\<close> where the original stored \<^verbatim>\<open>1\<close>.
\<close>

theorem rename_target_loses_references:
  "subst_rename ''k'' (VStr ''${a}${b}'') ''a'' ''c'' = Inr (Some (VStr ''${c}b'', ''subst'')) \<and>
   subst_targets ''k'' (VStr ''${a}${b}'') = Inr [''a'', ''b''] \<and>
   subst_targets ''k'' (VStr ''${c}b'') = Inr [''c''] \<and>
   crossref_rename ''k'' (VStr ''a'') ''a'' ''c'' = Inr (Some (VList [VStr ''c''], ''crossref'')) \<and>
   crossref_action [(''c'', VInt 1)] ''k'' (VStr ''c'') params
     = Inr [(''c'', VInt 1), (''k'', VInt 1)] \<and>
   crossref_action [(''c'', VInt 1)] ''k'' (VList [VStr ''c'']) params
     = Inr [(''c'', VInt 1), (''k'', VList [VInt 1])]"
  by (simp add: subst_rename_def subst_targets_def subst_str_def crossref_rename_def var_char_def
        crossref_action_def crossref_check_and_cast_def getitem_def)

section \<open>The dependencies of subst\<close>

text \<open>
  C8.  \<^verbatim>\<open>subst_targets\<close> asserts that the value is a string, so for a list value it fails with
  an \<^verbatim>\<open>AssertionError\<close> and returns no names, although \<^verbatim>\<open>subst_action\<close> substitutes in
  every element of a list.  The eager evaluator computes the targets of every lazy directive,
  so a provider with a list-valued \<^verbatim>\<open>lazysubst\<close> makes it fail.
\<close>

theorem subst_targets_rejects_list:
  "subst_targets key (VList l) = Inl AssertionError \<and>
   subst_action [(''a'', VStr ''x'')] ''k'' (VList [VStr ''${a}'']) params
     = Inr [(''a'', VStr ''x''), (''k'', VList [VStr ''x''])] \<and>
   update_and_expand_meta e [(''a'', VStr ''x'')]
       [(''k'', VList [VStr ''${a}'']), (''k_meta'', VStr ''lazysubst'')]
     = Inl AssertionError"
  by (simp add: subst_targets_def subst_action_def perform_subst_def subst_str_def getitem_def
        var_char_def update_and_expand_meta_def expand_meta_loop_def deepdict_def
        ends_with_meta_def setting_of_def meta_directives_of_def get_meta_directives_def
        lazy_directive_def suffix_def)


section \<open>Detection of a lazy cycle\<close>

lemma starting_nodes_empty: "no_start_node g \<Longrightarrow> starting_nodes_of g = []"
  by (induction g) (auto simp: no_start_node_def starting_nodes_of_def)

text \<open>
  C4.  If the fold of the providers succeeds, the graph built from its result is not empty and
  every node of it has an incoming edge, then \<^verbatim>\<open>combine_configs\<close> fails with the lazy-cycle
  error.  In particular the provider with \<^verbatim>\<open>x = "${y}"\<close> and \<^verbatim>\<open>y = "${x}"\<close>, both
  \<^verbatim>\<open>lazysubst\<close>, fails so.  The start nodes of any graph are exactly its nodes without an
  incoming edge, in sorted order.
\<close>

theorem lazy_cycle_detected:
  "(fold_configs e configs = Inr expanded \<longrightarrow> lazy_graph e expanded = Inr (ec, lazy_metas, g) \<longrightarrow>
      g \<noteq> [] \<longrightarrow> no_start_node g \<longrightarrow> combine_configs e key_order configs = Inl LazyLoop)
   \<and> combine_configs e key_order
        [[(''x'', VStr ''${y}''), (''x_meta'', VStr ''lazysubst''),
          (''y'', VStr ''${x}''), (''y_meta'', VStr ''lazysubst'')]] = Inl LazyLoop
   \<and> sorted (starting_nodes_of g')
   \<and> set (starting_nodes_of g') = {node. \<exists>outgoing. (node, outgoing, []) \<in> set g'}"
proof (intro conjI impI)
  assume "fold_configs e configs = Inr expanded" "lazy_graph e expanded = Inr (ec, lazy_metas, g)"
    "g \<noteq> []" "no_start_node g"
  then show "combine_configs e key_order configs = Inl LazyLoop"
    by (simp add: combine_configs_def starting_nodes_empty)
next
  show "combine_configs e key_order
        [[(''x'', VStr ''${y}''), (''x_meta'', VStr ''lazysubst''),
          (''y'', VStr ''${x}''), (''y_meta'', VStr ''lazysubst'')]] = Inl LazyLoop"
    by (simp add: combine_configs_def fold_configs_def lazy_graph_def starting_nodes_of_def
        update_and_expand_meta_def expand_meta_loop_def deepdict_def
        ends_with_meta_def setting_of_def meta_directives_of_def get_meta_directives_def
        lazy_directive_def suffix_def subst_targets_def getitem_def delitem_def has_key_def
        dict_update_def var_char_def ensure_node_def)
next
  show "sorted (starting_nodes_of g')" by (simp add: starting_nodes_of_def)
next
  show "set (starting_nodes_of g') = {node. \<exists>outgoing. (node, outgoing, []) \<in> set g'}"
    by (force simp: starting_nodes_of_def)
qed

theorem lazy_cycle_detected_witness:
  "fold_configs env0
     [[(''x'', VStr ''${y}''), (''x_meta'', VStr ''lazysubst''),
       (''y'', VStr ''${x}''), (''y_meta'', VStr ''lazysubst'')]]
     = Inr [(''x'', VStr ''${y}''), (''x_meta'', VStr ''lazysubst''),
            (''y'', VStr ''${x}''), (''y_meta'', VStr ''lazysubst'')] \<and>
   lazy_graph env0
     [(''x'', VStr ''${y}''), (''x_meta'', VStr ''lazysubst''),
      (''y'', VStr ''${x}''), (''y_meta'', VStr ''lazysubst'')]
     = Inr ([],
            [(''x_meta'', VStr ''subst''), (''x'', VStr ''${y}''),
             (''y_meta'', VStr ''subst''), (''y'', VStr ''${x}'')],
            [(''x'', [''y''], [''y'']), (''y'', [''x''], [''x''])]) \<and>
   no_start_node [(''x'', [''y''], [''y'']), (''y'', [''x''], [''x''])] \<and>
   combine_configs env0 [CONFIG_PATH_KEY, NEXT_FREE_INDEX_KEY]
     [[(''x'', VStr ''${y}''), (''x_meta'', VStr ''lazysubst''),
       (''y'', VStr ''${x}''), (''y_meta'', VStr ''lazysubst'')]] = Inl LazyLoop"
proof -
  have f: "fold_configs env0
     [[(''x'', VStr ''${y}''), (''x_meta'', VStr ''lazysubst''),
       (''y'', VStr ''${x}''), (''y_meta'', VStr ''lazysubst'')]]
     = Inr [(''x'', VStr ''${y}''), (''x_meta'', VStr ''lazysubst''),
            (''y'', VStr ''${x}''), (''y_meta'', VStr ''lazysubst'')]"
    by (simp add: fold_configs_def
        update_and_expand_meta_def expand_meta_loop_def deepdict_def
        ends_with_meta_def setting_of_def meta_directives_of_def get_meta_directives_def
        lazy_directive_def suffix_def subst_targets_def getitem_def delitem_def has_key_def
        dict_update_def var_char_def)
  have g: "lazy_graph env0
     [(''x'', VStr ''${y}''), (''x_meta'', VStr ''lazysubst''),
      (''y'', VStr ''${x}''), (''y_meta'', VStr ''lazysubst'')]
     = Inr ([],
            [(''x_meta'', VStr ''subst''), (''x'', VStr ''${y}''),
             (''y_meta'', VStr ''subst''), (''y'', VStr ''${x}'')],
            [(''x'', [''y''], [''y'']), (''y'', [''x''], [''x''])])"
    by (simp add: lazy_graph_def deepdict_def
        ends_with_meta_def setting_of_def get_meta_directives_def
        suffix_def subst_targets_def getitem_def delitem_def has_key_def
        var_char_def ensure_node_def)
  have n: "no_start_node [(''x'', [''y''], [''y'']), (''y'', [''x''], [''x''])]"
    by (simp add: no_start_node_def)
  show ?thesis
    using f g n lazy_cycle_detected [of env0 _ _ _ _ _ "[CONFIG_PATH_KEY, NEXT_FREE_INDEX_KEY]"]
    by blast
qed

section \<open>Invalid directive lists\<close>

lemma registered_not_lazy: "registered e m \<Longrightarrow> \<not> prefix ''lazy'' m \<and> \<not> prefix ''dynamic'' m"
  by (auto simp: registered_def get_meta_directives_def split: if_splits)

lemma getitem_Inl: "getitem d k = Inl err \<Longrightarrow> err = KeyError k"
  by (auto simp: getitem_def split: option.splits)

lemma sub_pieces_Inl: "sub_pieces repl s = Inl err \<Longrightarrow> \<exists>name. repl name = Inl err"
  by (induction repl s rule: sub_pieces.induct) (auto split: option.splits sum.splits)

lemma join_pieces_Inl: "join_pieces ps = Inl err \<Longrightarrow> err = TypeError"
  by (induction ps rule: join_pieces.induct) (auto split: sum.splits)

lemma subst_str_Inl:
  "subst_str v repl = Inl err \<Longrightarrow> err = TypeError \<or> (\<exists>name. repl name = Inl err)"
  by (auto simp: subst_str_def split: val.splits sum.splits dest: sub_pieces_Inl join_pieces_Inl)

lemma map_err_Inl: "map_err f xs = Inl err \<Longrightarrow> \<exists>x\<in>set xs. f x = Inl err"
  by (induction xs) (auto split: sum.splits)

lemma py_add_Inl: "py_add a b = Inl err \<Longrightarrow> err = TypeError"
  by (induction a b rule: py_add.induct) auto


lemma append_action_Inl: "append_action nd s v p = Inl err \<Longrightarrow> \<not> invalid_directive err"
  by (auto simp: append_action_def Let_def split: sum.splits val.splits if_splits dest!: getitem_Inl)

lemma crossappend_decode_Inl: "crossappend_decode v = Inl err \<Longrightarrow> err = AssertionError"
  by (auto simp: crossappend_decode_def split: val.splits list.splits)

lemma crossappendref_decode_Inl: "crossappendref_decode v = Inl err \<Longrightarrow> err = AssertionError"
  by (auto simp: crossappendref_decode_def split: val.splits list.splits)

lemma crossappend_action_Inl: "crossappend_action nd s v p = Inl err \<Longrightarrow> \<not> invalid_directive err"
  by (auto simp: crossappend_action_def split: sum.splits prod.splits
           dest!: getitem_Inl crossappend_decode_Inl py_add_Inl)

lemma crossappendref_action_Inl: "crossappendref_action nd s v p = Inl err \<Longrightarrow> \<not> invalid_directive err"
  by (auto simp: crossappendref_action_def split: sum.splits prod.splits
           dest!: getitem_Inl crossappendref_decode_Inl py_add_Inl)

lemma perform_subst_Inl: "perform_subst nd v = Inl err \<Longrightarrow> \<not> invalid_directive err"
  by (auto simp: perform_subst_def split: sum.splits val.splits
           dest!: map_err_Inl subst_str_Inl getitem_Inl)

lemma subst_action_Inl: "subst_action nd s v p = Inl err \<Longrightarrow> \<not> invalid_directive err"
  by (auto simp: subst_action_def split: sum.splits dest: perform_subst_Inl)

lemma crossref_check_and_cast_Inl: "crossref_check_and_cast k = Inl err \<Longrightarrow> err = CrossrefNonString"
  by (auto simp: crossref_check_and_cast_def split: val.splits)

lemma crossref_action_Inl: "crossref_action nd s v p = Inl err \<Longrightarrow> \<not> invalid_directive err"
  by (auto simp: crossref_action_def split: sum.splits val.splits
           dest!: map_err_Inl getitem_Inl crossref_check_and_cast_Inl)

lemma transclude_action_Inl: "transclude_action e nd s v p = Inl err \<Longrightarrow> \<not> invalid_directive err"
  by (auto simp: transclude_action_def split: val.splits option.splits)

lemma json2list_action_Inl: "json2list_action e nd s v p = Inl err \<Longrightarrow> \<not> invalid_directive err"
  by (auto simp: json2list_action_def split: val.splits option.splits)

lemma prependlocal_action_Inl: "prependlocal_action e nd s v p = Inl err \<Longrightarrow> \<not> invalid_directive err"
  by (auto simp: prependlocal_action_def split: val.splits option.splits)

lemmas action_Inl = append_action_Inl crossappend_action_Inl crossappendref_action_Inl
  subst_action_Inl crossref_action_Inl transclude_action_Inl json2list_action_Inl
  prependlocal_action_Inl

lemma action_error_kind:
  assumes "map_of (get_meta_directives e) b = Some d" and "action d nd s v p = Inl err"
  shows "\<not> invalid_directive err"
  using assms by (auto simp: get_meta_directives_def split: if_splits dest: action_Inl)

lemma subst_targets_Inl: "subst_targets s v = Inl err \<Longrightarrow> err = AssertionError"
  by (auto simp: subst_targets_def split: val.splits)

lemma crossref_targets_Inl: "crossref_targets s v = Inl err \<Longrightarrow> \<not> invalid_directive err"
  by (auto simp: crossref_targets_def split: val.splits dest!: map_err_Inl crossref_check_and_cast_Inl)

lemma targets_error_kind:
  assumes "map_of (get_meta_directives e) b = Some d" and "target_settings d s v = Inl err"
  shows "\<not> invalid_directive err"
  using assms
  by (auto simp: get_meta_directives_def crossappend_targets_def crossappendref_targets_def
           split: if_splits sum.splits prod.splits
           dest!: crossappend_decode_Inl crossappendref_decode_Inl subst_targets_Inl crossref_targets_Inl)

lemma subst_rename_Inl: "subst_rename k v t r = Inl err \<Longrightarrow> \<not> invalid_directive err"
  by (auto simp: subst_rename_def split: val.splits sum.splits if_splits
           dest!: subst_targets_Inl subst_str_Inl)

lemma crossref_rename_Inl: "crossref_rename k v t r = Inl err \<Longrightarrow> \<not> invalid_directive err"
  by (auto simp: crossref_rename_def Let_def split: val.splits sum.splits
           dest!: map_err_Inl crossref_check_and_cast_Inl)

lemma rename_error_kind:
  assumes "map_of (get_meta_directives e) b = Some d" and "rename_target d k v t r = Inl err"
  shows "\<not> invalid_directive err"
  using assms
  by (auto simp: get_meta_directives_def append_rename_def crossappend_rename_def
           crossappendref_rename_def transclude_rename_def json2list_rename_def
           prependlocal_rename_def Let_def
           split: if_splits sum.splits prod.splits
           dest!: crossappend_decode_Inl crossappendref_decode_Inl subst_rename_Inl crossref_rename_Inl)

lemma py_int_Inl: "py_int e v = Inl err \<Longrightarrow> \<not> invalid_directive err"
  by (auto simp: py_int_def split: val.splits option.splits)

lemma get_next_free_index_Inl: "get_next_free_index e d = Inl err \<Longrightarrow> \<not> invalid_directive err"
  by (auto simp: get_next_free_index_def Let_def split: sum.splits if_splits
           dest!: getitem_Inl py_int_Inl)

lemma lazy_directive_Inl:
  assumes "map_of (get_meta_directives e) b = Some d"
      and "lazy_directive e d s mt nd md = Inl err"
  shows "\<not> invalid_directive err"
  using assms(2) targets_error_kind [OF assms(1)] rename_error_kind [OF assms(1)]
  by (auto simp: lazy_directive_def Let_def
           split: sum.splits prod.splits option.splits if_splits
           dest!: getitem_Inl get_next_free_index_Inl)

lemma eager_directive_Inl:
  assumes "eager_directive e mk s m nd md = Inl err" and "invalid_directive err"
  shows "\<not> registered e m"
  using assms
  by (auto simp: eager_directive_def registered_def
           split: option.splits sum.splits dest!: getitem_Inl action_error_kind)


lemma invalid_directive_list_Cons:
  "invalid_directive_list e ds \<Longrightarrow> invalid_directive_list e (d # ds)"
  by (auto simp: invalid_directive_list_def list_ex_iff dest: set_dropWhileD)

lemma invalid_directive_list_after_lazy:
  "is_lazy d \<Longrightarrow> ds \<noteq> [] \<Longrightarrow> invalid_directive_list e (d # ds)"
  by (cases ds) (auto simp: invalid_directive_list_def)

lemma invalid_only_if_gen:
  "process_directives e mk s ds seen nd md = Inl err \<Longrightarrow> invalid_directive err \<Longrightarrow>
     (seen \<and> ds \<noteq> []) \<or> invalid_directive_list e ds"
proof (induction ds arbitrary: seen nd md)
  case Nil
  then show ?case by simp
next
  case (Cons d ds)
  show ?case
  proof (cases d)
    case (VStr m)
    show ?thesis
    proof (cases "prefix ''dynamic'' m")
      case True
      then show ?thesis by (simp add: invalid_directive_list_def is_dynamic_def VStr)
    next
      case nodyn: False
      show ?thesis
      proof (cases "prefix ''lazy'' m")
        case True
        show ?thesis
        proof (cases "map_of (get_meta_directives e) (drop 4 m)")
          case None
          moreover have "\<not> registered e m"
            using True registered_not_lazy [of e m] by blast
          ultimately have "is_unknown e d"
            by (simp add: is_unknown_def VStr registered_def)
          then show ?thesis by (simp add: invalid_directive_list_def)
        next
          case (Some dir)
          show ?thesis
          proof (cases seen)
            case True
            then show ?thesis by simp
          next
            case False
            show ?thesis
            proof (cases "lazy_directive e dir s m nd md")
              case (Inl err')
              then have "err = err'"
                using Cons.prems(1) VStr nodyn True Some False by simp
              then show ?thesis
                using lazy_directive_Inl [OF Some Inl] Cons.prems(2) by simp
            next
              case (Inr nd1)
              then have "process_directives e mk s ds True nd1 md = Inl err"
                using Cons.prems(1) VStr nodyn True Some False by simp
              from Cons.IH [OF this Cons.prems(2)]
              have "ds \<noteq> [] \<or> invalid_directive_list e ds" by auto
              moreover have "is_lazy d" using True by (simp add: is_lazy_def VStr)
              ultimately show ?thesis
                by (auto intro: invalid_directive_list_Cons invalid_directive_list_after_lazy)
            qed
          qed
        qed
      next
        case nolazy: False
        show ?thesis
        proof (cases seen)
          case True
          then show ?thesis by simp
        next
          case False
          show ?thesis
          proof (cases "eager_directive e mk s m nd md")
            case (Inl err')
            then have "err = err'"
              using Cons.prems(1) VStr nodyn nolazy False by simp
            then have "\<not> registered e m"
              using eager_directive_Inl [OF Inl] Cons.prems(2) by simp
            then have "is_unknown e d" using nolazy by (simp add: is_unknown_def VStr)
            then show ?thesis by (simp add: invalid_directive_list_def)
          next
            case (Inr r)
            then obtain nd1 md1 where r: "r = (nd1, md1)" by (cases r)
            then have "process_directives e mk s ds False nd1 md1 = Inl err"
              using Cons.prems(1) VStr nodyn nolazy False Inr by simp
            from Cons.IH [OF this Cons.prems(2)]
            show ?thesis by (auto intro: invalid_directive_list_Cons)
          qed
        qed
      qed
    qed
  qed (auto simp: invalid_directive_list_def is_str_def)
qed

lemma invalid_if_gen:
  "(seen \<and> ds \<noteq> []) \<or> invalid_directive_list e ds \<Longrightarrow>
     isl (process_directives e mk s ds seen nd md)"
proof (induction ds arbitrary: seen nd md)
  case Nil
  then show ?case by (simp add: invalid_directive_list_def)
next
  case (Cons d ds)
  show ?case
  proof (cases d)
    case (VStr m)
    show ?thesis
    proof (cases "prefix ''dynamic'' m \<or> seen")
      case True
      then show ?thesis by (auto simp: VStr split: option.splits)
    next
      case False
      then have nodyn: "\<not> prefix ''dynamic'' m" and noseen: "\<not> seen" by auto
      have inv: "invalid_directive_list e (d # ds)" using Cons.prems noseen by simp
      show ?thesis
      proof (cases "prefix ''lazy'' m")
        case True
        show ?thesis
        proof (cases "map_of (get_meta_directives e) (drop 4 m)")
          case None
          then show ?thesis using nodyn True by (simp add: VStr)
        next
          case (Some dir)
          show ?thesis
          proof (cases "lazy_directive e dir s m nd md")
            case (Inl err')
            then show ?thesis using nodyn True Some noseen by (simp add: VStr)
          next
            case (Inr nd1)
            have "ds \<noteq> [] \<or> invalid_directive_list e ds"
              using inv nodyn True Some
              by (cases ds)
                 (auto simp: invalid_directive_list_def VStr is_unknown_def is_dynamic_def
                    is_str_def is_lazy_def registered_def)
            then have "isl (process_directives e mk s ds True nd1 md)"
              by (intro Cons.IH) auto
            then show ?thesis using nodyn True Some noseen Inr by (simp add: VStr)
          qed
        qed
      next
        case nolazy: False
        show ?thesis
        proof (cases "eager_directive e mk s m nd md")
          case (Inl err')
          then show ?thesis using nodyn nolazy noseen by (simp add: VStr)
        next
          case (Inr r)
          then obtain nd1 md1 where r: "r = (nd1, md1)" by (cases r)
          have reg: "registered e m"
            using Inr by (auto simp: eager_directive_def registered_def split: option.splits)
          have "invalid_directive_list e ds"
            using inv nodyn nolazy reg
            by (auto simp: invalid_directive_list_def VStr is_unknown_def is_dynamic_def
                    is_str_def is_lazy_def)
          then have "isl (process_directives e mk s ds False nd1 md1)"
            by (intro Cons.IH) auto
          then show ?thesis using nodyn nolazy noseen Inr r by (simp add: VStr)
        qed
      qed
    qed
  qed simp_all
qed

lemma directive_error_invalid: "directive_error e mk seen d = Some err \<Longrightarrow> invalid_directive err"
  by (auto simp: directive_error_def split: if_splits val.splits)

lemma eager_directive_invalid:
  assumes "eager_directive e mk s m nd md = Inl err" and "invalid_directive err"
  shows "err = MetaUnsupported mk m \<and> \<not> registered e m"
  using assms
  by (auto simp: eager_directive_def registered_def
           split: option.splits sum.splits dest!: getitem_Inl action_error_kind)

lemma lazy_not_dynamic: "prefix ''lazy'' m \<Longrightarrow> \<not> prefix ''dynamic'' m"
  by (cases m) auto

lemma process_directives_entry:
  assumes "directive_error e mk seen d = Some err"
  shows "process_directives e mk s (d # post) seen nd md = Inl err"
proof (cases d)
  case (VStr m)
  show ?thesis
  proof (cases "prefix ''lazy'' m")
    case True
    then have "\<not> registered e m" "\<not> prefix ''dynamic'' m"
      using registered_not_lazy [of e m] lazy_not_dynamic [of m] by auto
    with True assms show ?thesis
      by (auto simp: VStr directive_error_def is_str_def is_dynamic_def is_unknown_def is_lazy_def
            registered_def split: if_splits option.splits)
  next
    case False
    with assms show ?thesis
      by (auto simp: VStr directive_error_def is_str_def is_dynamic_def is_unknown_def is_lazy_def
            registered_def eager_directive_def split: if_splits option.splits)
  qed
qed (insert assms, auto simp: directive_error_def is_str_def)

lemma is_lazy_VStr: "is_lazy (VStr m) = prefix ''lazy'' m"
  by (simp add: is_lazy_def)

lemma process_directives_append:
  "process_directives e mk s (pre @ rest) seen nd md =
     (case process_directives e mk s pre seen nd md of
        Inl err \<Rightarrow> Inl err
      | Inr (nd1, md1) \<Rightarrow> process_directives e mk s rest (seen \<or> list_ex is_lazy pre) nd1 md1)"
proof (induction pre arbitrary: seen nd md)
  case Nil
  then show ?case by simp
next
  case (Cons d pre)
  show ?case
  proof (cases d)
    case (VStr m)
    show ?thesis
    proof (cases seen)
      case True
      then show ?thesis
        by (simp add: VStr is_lazy_VStr Cons.IH split: sum.splits option.splits prod.splits)
    next
      case False
      then show ?thesis
        by (simp add: VStr is_lazy_VStr Cons.IH split: sum.splits option.splits prod.splits)
    qed
  qed (simp_all add: is_lazy_def)
qed

lemma raised_at_entry:
  assumes "process_directives e mk s pre False nd md = Inr (nd1, md1)"
    and "directive_error e mk (list_ex is_lazy pre) d = Some err"
  shows "process_directives e mk s (pre @ d # post) False nd md = Inl err"
proof -
  have "process_directives e mk s (d # post) (False \<or> list_ex is_lazy pre) nd1 md1 = Inl err"
    using assms(2) by (intro process_directives_entry) simp
  then show ?thesis
    unfolding process_directives_append [of e mk s pre "d # post"] assms(1) by simp
qed

lemma raised_only_at_entry:
  "process_directives e mk s ds seen nd md = Inl err \<Longrightarrow> invalid_directive err \<Longrightarrow>
     \<exists>pre d post nd1 md1. ds = pre @ d # post \<and>
        process_directives e mk s pre seen nd md = Inr (nd1, md1) \<and>
        directive_error e mk (seen \<or> list_ex is_lazy pre) d = Some err"
proof (induction ds arbitrary: seen nd md)
  case Nil
  then show ?case by simp
next
  case (Cons d ds)
  have here: ?case if "directive_error e mk seen d = Some err"
    using that by (intro exI [of _ "[]"] exI [of _ d] exI [of _ ds] exI [of _ nd] exI [of _ md]) simp
  have later: ?case
    if ok: "process_directives e mk s [d] seen nd md = Inr (nd2, md2)"
      and rest: "process_directives e mk s ds (seen \<or> is_lazy d) nd2 md2 = Inl err"
    for nd2 md2
  proof -
    from Cons.IH [OF rest Cons.prems(2)] obtain pre d' post nd1 md1 where
      ds: "ds = pre @ d' # post" and
      p: "process_directives e mk s pre (seen \<or> is_lazy d) nd2 md2 = Inr (nd1, md1)" and
      de: "directive_error e mk ((seen \<or> is_lazy d) \<or> list_ex is_lazy pre) d' = Some err"
      by blast
    have "process_directives e mk s (d # pre) seen nd md = Inr (nd1, md1)"
      using process_directives_append [of e mk s "[d]" pre seen nd md] ok p by simp
    moreover have "d # ds = (d # pre) @ d' # post" using ds by simp
    moreover have "directive_error e mk (seen \<or> list_ex is_lazy (d # pre)) d' = Some err"
      using de by (simp add: disj_assoc)
    ultimately show ?thesis by blast
  qed
  show ?case
  proof (cases d)
    case (VStr m)
    show ?thesis
    proof (cases "prefix ''dynamic'' m")
      case True
      then have "err = DynamicMeta m" using Cons.prems(1) by (simp add: VStr)
      then show ?thesis using True
        by (intro here) (simp add: directive_error_def is_str_def is_dynamic_def VStr)
    next
      case nodyn: False
      show ?thesis
      proof (cases "prefix ''lazy'' m")
        case True
        then have nreg: "\<not> registered e m" using registered_not_lazy [of e m] by blast
        show ?thesis
        proof (cases "map_of (get_meta_directives e) (drop 4 m)")
          case None
          then have "err = LazyMetaUnsupported mk m"
            using Cons.prems(1) nodyn True by (simp add: VStr)
          then show ?thesis using None True nodyn nreg
            by (intro here)
               (simp add: directive_error_def is_str_def is_dynamic_def is_unknown_def
                  is_lazy_def registered_def VStr)
        next
          case (Some dir)
          show ?thesis
          proof (cases seen)
            case True
            then have "err = MultipleLazy"
              using Cons.prems(1) nodyn \<open>prefix ''lazy'' m\<close> Some by (simp add: VStr)
            then show ?thesis using Some True nodyn \<open>prefix ''lazy'' m\<close>
              by (intro here)
                 (simp add: directive_error_def is_str_def is_dynamic_def is_unknown_def
                    is_lazy_def registered_def VStr)
          next
            case False
            show ?thesis
            proof (cases "lazy_directive e dir s m nd md")
              case (Inl err')
              then have "err = err'"
                using Cons.prems(1) nodyn True Some False by (simp add: VStr)
              then show ?thesis
                using lazy_directive_Inl [OF Some Inl] Cons.prems(2) by simp
            next
              case (Inr nd2)
              have "process_directives e mk s [d] seen nd md = Inr (nd2, md)"
                using nodyn True Some False Inr by (simp add: VStr)
              moreover have "process_directives e mk s ds (seen \<or> is_lazy d) nd2 md = Inl err"
                using Cons.prems(1) nodyn True Some False Inr by (simp add: VStr is_lazy_VStr)
              ultimately show ?thesis by (rule later)
            qed
          qed
        qed
      next
        case nolazy: False
        show ?thesis
        proof (cases seen)
          case True
          then have "err = NonLazyAfterLazy"
            using Cons.prems(1) nodyn nolazy by (simp add: VStr)
          then show ?thesis using True nodyn nolazy
            by (intro here)
               (simp add: directive_error_def is_str_def is_dynamic_def is_unknown_def
                  is_lazy_def VStr)
        next
          case False
          show ?thesis
          proof (cases "eager_directive e mk s m nd md")
            case (Inl err')
            then have "err = err'"
              using Cons.prems(1) nodyn nolazy False by (simp add: VStr)
            then have "err = MetaUnsupported mk m" "\<not> registered e m"
              using eager_directive_invalid [OF Inl] Cons.prems(2) by simp_all
            then show ?thesis using False nodyn nolazy
              by (intro here)
                 (simp add: directive_error_def is_str_def is_dynamic_def is_unknown_def
                    is_lazy_def VStr)
          next
            case (Inr r)
            then obtain nd2 md2 where r: "r = (nd2, md2)" by (cases r)
            have "process_directives e mk s [d] seen nd md = Inr (nd2, md2)"
              using nodyn nolazy False Inr r by (simp add: VStr)
            moreover have "process_directives e mk s ds (seen \<or> is_lazy d) nd2 md2 = Inl err"
              using Cons.prems(1) nodyn nolazy False Inr r by (simp add: VStr is_lazy_VStr)
            ultimately show ?thesis by (rule later)
          qed
        qed
      qed
    qed
  next
    case VNull
    then have "err = MetaTypeNotString" using Cons.prems(1) by simp
    then show ?thesis by (intro here) (simp add: directive_error_def is_str_def VNull)
  next
    case (VBool x)
    then have "err = MetaTypeNotString" using Cons.prems(1) by simp
    then show ?thesis by (intro here) (simp add: directive_error_def is_str_def VBool)
  next
    case (VInt x)
    then have "err = MetaTypeNotString" using Cons.prems(1) by simp
    then show ?thesis by (intro here) (simp add: directive_error_def is_str_def VInt)
  next
    case (VList x)
    then have "err = MetaTypeNotString" using Cons.prems(1) by simp
    then show ?thesis by (intro here) (simp add: directive_error_def is_str_def VList)
  next
    case (VDict x)
    then have "err = MetaTypeNotString" using Cons.prems(1) by simp
    then show ?thesis by (intro here) (simp add: directive_error_def is_str_def VDict)
  qed
qed


lemma directive_error_seen: "directive_error e mk True d \<noteq> None"
  by (simp add: directive_error_def)

lemma directive_error_offending:
  "\<not> is_str d \<or> is_dynamic d \<or> is_unknown e d \<Longrightarrow> directive_error e mk seen d \<noteq> None"
  by (auto simp: directive_error_def)

lemma directive_error_cases:
  "directive_error e mk seen d \<noteq> None \<Longrightarrow>
     \<not> is_str d \<or> is_dynamic d \<or> is_unknown e d \<or> seen"
  by (auto simp: directive_error_def split: if_splits)

lemma two_in_filter:
  assumes "1 < length (filter P xs)"
  shows "\<exists>pre d post. xs = pre @ d # post \<and> P d \<and> list_ex P pre"
proof -
  from assms obtain a b rest where f: "filter P xs = a # b # rest"
    by (cases "filter P xs"; cases "tl (filter P xs)") auto
  then obtain us vs where 1: "xs = us @ a # vs" "P a" "b # rest = filter P vs"
    by (auto simp: filter_eq_Cons_iff)
  from 1(3) have "filter P vs = b # rest" by simp
  then obtain us' vs' where 2: "vs = us' @ b # vs'" "P b"
    by (auto simp: filter_eq_Cons_iff)
  have "xs = (us @ a # us') @ b # vs'" using 1 2 by simp
  moreover have "list_ex P (us @ a # us')" using 1 by (simp add: list_ex_iff)
  ultimately show ?thesis using 2 by blast
qed

lemma after_first_lazy:
  assumes "list_ex (\<lambda>d. \<not> is_lazy d) (dropWhile (\<lambda>d. \<not> is_lazy d) ds)"
  shows "\<exists>pre d post. ds = pre @ d # post \<and> \<not> is_lazy d \<and> list_ex is_lazy pre"
proof -
  let ?t = "takeWhile (\<lambda>d. \<not> is_lazy d) ds" and ?r = "dropWhile (\<lambda>d. \<not> is_lazy d) ds"
  have "?r \<noteq> []"
  proof
    assume "?r = []"
    then have "\<not> list_ex (\<lambda>d. \<not> is_lazy d) ?r" by (simp only: list_ex_iff) simp
    with assms show False by blast
  qed
  then obtain l b where r: "?r = l # b" by (cases ?r) auto
  then have l: "is_lazy l" using hd_dropWhile [of "\<lambda>d. \<not> is_lazy d" ds] by auto
  from assms r l obtain x where "x \<in> set b" "\<not> is_lazy x" by (auto simp: list_ex_iff)
  then obtain b1 b2 where b: "b = b1 @ x # b2" by (auto dest: split_list)
  have "ds = ?t @ ?r" by simp
  then have "ds = (?t @ l # b1) @ x # b2" using r b by simp
  moreover have "list_ex is_lazy (?t @ l # b1)" using l by (simp add: list_ex_iff)
  ultimately show ?thesis using \<open>\<not> is_lazy x\<close> by blast
qed

lemma invalid_directive_list_entry:
  "invalid_directive_list e ds \<longleftrightarrow>
     (\<exists>pre d post. ds = pre @ d # post \<and> directive_error e mk (list_ex is_lazy pre) d \<noteq> None)"
proof
  assume inv: "invalid_directive_list e ds"
  then consider
      (a) "list_ex (\<lambda>d. \<not> is_str d \<or> is_dynamic d \<or> is_unknown e d) ds"
    | (b) "1 < length (filter is_lazy ds)"
    | (c) "list_ex (\<lambda>d. \<not> is_lazy d) (dropWhile (\<lambda>d. \<not> is_lazy d) ds)"
    by (auto simp: invalid_directive_list_def list_ex_iff)
  then show "\<exists>pre d post. ds = pre @ d # post \<and> directive_error e mk (list_ex is_lazy pre) d \<noteq> None"
  proof cases
    case a
    then obtain d where "d \<in> set ds" "\<not> is_str d \<or> is_dynamic d \<or> is_unknown e d"
      by (auto simp: list_ex_iff)
    then obtain pre post where "ds = pre @ d # post" by (auto dest: split_list)
    then show ?thesis
      using directive_error_offending [OF \<open>\<not> is_str d \<or> is_dynamic d \<or> is_unknown e d\<close>] by blast
  next
    case b
    from two_in_filter [OF b] obtain pre d post where
      "ds = pre @ d # post" "list_ex is_lazy pre" by blast
    then show ?thesis using directive_error_seen by metis
  next
    case c
    from after_first_lazy [OF c] obtain pre d post where
      "ds = pre @ d # post" "list_ex is_lazy pre" by blast
    then show ?thesis using directive_error_seen by metis
  qed
next
  assume "\<exists>pre d post. ds = pre @ d # post \<and> directive_error e mk (list_ex is_lazy pre) d \<noteq> None"
  then obtain pre d post where ds: "ds = pre @ d # post"
    and de: "directive_error e mk (list_ex is_lazy pre) d \<noteq> None" by blast
  from directive_error_cases [OF de]
  consider (a) "\<not> is_str d \<or> is_dynamic d \<or> is_unknown e d" | (b) "list_ex is_lazy pre" by blast
  then show "invalid_directive_list e ds"
  proof cases
    case a
    then show ?thesis by (auto simp: invalid_directive_list_def ds)
  next
    case b
    then obtain l where l: "l \<in> set pre" "is_lazy l" by (auto simp: list_ex_iff)
    show ?thesis
    proof (cases "is_lazy d")
      case True
      have "filter is_lazy pre \<noteq> []" using l by (auto simp: filter_empty_conv)
      then have "1 < length (filter is_lazy ds)"
        using True by (cases "filter is_lazy pre") (auto simp: ds)
      then show ?thesis by (simp add: invalid_directive_list_def)
    next
      case False
      have "dropWhile (\<lambda>d. \<not> is_lazy d) ds = dropWhile (\<lambda>d. \<not> is_lazy d) pre @ d # post"
        unfolding ds using l by (intro dropWhile_append1) auto
      then have "list_ex (\<lambda>d. \<not> is_lazy d) (dropWhile (\<lambda>d. \<not> is_lazy d) ds)"
        using False by (simp add: list_ex_iff)
      then show ?thesis by (simp add: invalid_directive_list_def)
    qed
  qed
qed

text \<open>
  C9, as amended.  The loop over a directive list raises an error of the kind
  invalid-directive exactly when the list has an entry with one of the five conditions (an
  unknown name, a name starting with \<^verbatim>\<open>dynamic\<close>, an entry that is not a string, a second
  lazy directive, a directive that is not lazy after a lazy one) and the directives before
  that entry evaluate without error; the error raised is then the one of that entry.  A list
  with one of the five conditions never evaluates without an error: when a directive before
  the offending entry fails, that error is raised instead.  A list free of the five conditions
  raises no such error.  A first entry that starts with \<^verbatim>\<open>dynamic\<close> raises the error whose
  message tells the user to rename it to \<^verbatim>\<open>lazy\<close>.
\<close>

theorem invalid_directive_raised:
  "(process_directives e mk s ds False nd md = Inl err \<longrightarrow> invalid_directive err \<longrightarrow>
      invalid_directive_list e ds \<and>
      (\<exists>pre d post nd1 md1. ds = pre @ d # post \<and>
          process_directives e mk s pre False nd md = Inr (nd1, md1) \<and>
          directive_error e mk (list_ex is_lazy pre) d = Some err))
   \<and> (process_directives e mk s pre' False nd md = Inr (nd', md') \<longrightarrow>
      directive_error e mk (list_ex is_lazy pre') d' = Some err' \<longrightarrow>
        process_directives e mk s (pre' @ d' # post') False nd md = Inl err' \<and>
        invalid_directive err')
   \<and> (invalid_directive_list e ds \<longleftrightarrow>
        (\<exists>pre d post. ds = pre @ d # post \<and>
            directive_error e mk (list_ex is_lazy pre) d \<noteq> None))
   \<and> (invalid_directive_list e ds \<longrightarrow> isl (process_directives e mk s ds False nd md))
   \<and> (prefix ''dynamic'' m \<longrightarrow>
        process_directives e mk s (VStr m # rest) seen nd md = Inl (DynamicMeta m))"
proof (intro conjI impI)
  assume r: "process_directives e mk s ds False nd md = Inl err" and i: "invalid_directive err"
  show "invalid_directive_list e ds"
    using invalid_only_if_gen [OF r i] by simp
  show "\<exists>pre d post nd1 md1. ds = pre @ d # post \<and>
          process_directives e mk s pre False nd md = Inr (nd1, md1) \<and>
          directive_error e mk (list_ex is_lazy pre) d = Some err"
    using raised_only_at_entry [OF r i] by simp
next
  assume p: "process_directives e mk s pre' False nd md = Inr (nd', md')"
    and d: "directive_error e mk (list_ex is_lazy pre') d' = Some err'"
  show "process_directives e mk s (pre' @ d' # post') False nd md = Inl err'"
    by (rule raised_at_entry [OF p d])
  show "invalid_directive err'"
    by (rule directive_error_invalid [OF d])
next
  show "invalid_directive_list e ds \<longleftrightarrow>
        (\<exists>pre d post. ds = pre @ d # post \<and>
            directive_error e mk (list_ex is_lazy pre) d \<noteq> None)"
    by (rule invalid_directive_list_entry)
next
  assume "invalid_directive_list e ds"
  then show "isl (process_directives e mk s ds False nd md)"
    using invalid_if_gen [of False ds e mk s nd md] by simp
next
  assume "prefix ''dynamic'' m"
  then show "process_directives e mk s (VStr m # rest) seen nd md = Inl (DynamicMeta m)"
    by simp
qed

theorem invalid_directive_raised_witness:
  "process_directives env0 ''k_meta'' ''k'' [VStr ''append''] False [] [(''k'', VList [])]
     = Inr ([(''k'', VList [])], [(''k'', VList [])]) \<and>
   directive_error env0 ''k_meta'' (list_ex is_lazy [VStr ''append'']) (VStr ''bogus'')
     = Some (MetaUnsupported ''k_meta'' ''bogus'') \<and>
   process_directives env0 ''k_meta'' ''k'' ([VStr ''append''] @ VStr ''bogus'' # []) False []
       [(''k'', VList [])]
     = Inl (MetaUnsupported ''k_meta'' ''bogus'') \<and>
   invalid_directive (MetaUnsupported ''k_meta'' ''bogus'') \<and>
   invalid_directive_list env0 ([VStr ''append''] @ VStr ''bogus'' # []) \<and>
   isl (process_directives env0 ''k_meta'' ''k'' ([VStr ''append''] @ VStr ''bogus'' # []) False []
          [(''k'', VList [])]) \<and>
   prefix ''dynamic'' ''dynamicsubst'' \<and>
   process_directives env0 ''k_meta'' ''k'' [VStr ''dynamicsubst''] False [] [(''k'', VInt 5)]
     = Inl (DynamicMeta ''dynamicsubst'')"
proof -
  have p: "process_directives env0 ''k_meta'' ''k'' [VStr ''append''] False [] [(''k'', VList [])]
     = Inr ([(''k'', VList [])], [(''k'', VList [])])"
    by (simp add: eager_directive_def get_meta_directives_def append_action_def has_key_def
          getitem_def)
  have d: "directive_error env0 ''k_meta'' (list_ex is_lazy [VStr ''append'']) (VStr ''bogus'')
     = Some (MetaUnsupported ''k_meta'' ''bogus'')"
    by (simp add: directive_error_def is_str_def is_dynamic_def is_unknown_def is_lazy_def
          registered_def get_meta_directives_def)
  note T = invalid_directive_raised
      [where e = env0 and mk = "''k_meta''" and s = "''k''" and nd = "[]"
         and md = "[(''k'', VList [])]" and pre' = "[VStr ''append'']" and d' = "VStr ''bogus''"
         and post' = "[]" and nd' = "[(''k'', VList [])]" and md' = "[(''k'', VList [])]"
         and err' = "MetaUnsupported ''k_meta'' ''bogus''"
         and ds = "[VStr ''append''] @ VStr ''bogus'' # []"
         and err = "MetaUnsupported ''k_meta'' ''bogus''"
         and m = "''dynamicsubst''" and rest = "[]" and seen = False]
  have r: "process_directives env0 ''k_meta'' ''k'' ([VStr ''append''] @ VStr ''bogus'' # []) False []
       [(''k'', VList [])] = Inl (MetaUnsupported ''k_meta'' ''bogus'')"
    using T p d by blast
  have i: "invalid_directive (MetaUnsupported ''k_meta'' ''bogus'')"
    using T p d by blast
  have l: "invalid_directive_list env0 ([VStr ''append''] @ VStr ''bogus'' # [])"
    using T r i by blast
  have s: "isl (process_directives env0 ''k_meta'' ''k'' ([VStr ''append''] @ VStr ''bogus'' # [])
          False [] [(''k'', VList [])])"
    using T l by blast
  have y: "prefix ''dynamic'' ''dynamicsubst''" by simp
  have z: "process_directives env0 ''k_meta'' ''k'' [VStr ''dynamicsubst''] False [] [(''k'', VInt 5)]
     = Inl (DynamicMeta ''dynamicsubst'')"
    using invalid_directive_raised
      [where m = "''dynamicsubst''" and rest = "[]" and seen = False and e = env0
         and mk = "''k_meta''" and s = "''k''" and nd = "[]" and md = "[(''k'', VInt 5)]"] y
    by blast
  show ?thesis using p d r i l s y z by blast
qed

text \<open>
  The claim as stated fails: the list \<^verbatim>\<open>["append", "bogus"]\<close> contains an unknown name, but
  on the setting \<^verbatim>\<open>k = 5\<close> the first directive fails, and the error raised is the one of
  \<^verbatim>\<open>append\<close> on a value that is not a list.
\<close>

theorem invalid_directive_counterexample:
  "invalid_directive_list env0 [VStr ''append'', VStr ''bogus''] \<and>
   process_directives env0 ''k_meta'' ''k'' [VStr ''append'', VStr ''bogus''] False []
       [(''k'', VInt 5), (''k_meta'', VList [VStr ''append'', VStr ''bogus''])]
     = Inl (AppendNonList ''k'') \<and>
   \<not> invalid_directive (AppendNonList ''k'') \<and>
   update_and_expand_meta env0 []
       [(''k'', VInt 5), (''k_meta'', VList [VStr ''append'', VStr ''bogus''])]
     = Inl (AppendNonList ''k'')"
  by (simp add: invalid_directive_list_def is_unknown_def registered_def is_dynamic_def
        is_str_def is_lazy_def eager_directive_def get_meta_directives_def append_action_def
        has_key_def getitem_def update_and_expand_meta_def expand_meta_loop_def deepdict_def
        ends_with_meta_def suffix_def setting_of_def meta_directives_of_def)


section \<open>Meta keys and the settings they belong to\<close>

lemma has_key_iff: "has_key d k \<longleftrightarrow> k \<in> fst ` set d"
  by (simp add: has_key_def map_of_eq_None_iff)

lemma getitem_Inr: "getitem d k = Inr v \<Longrightarrow> map_of d k = Some v"
  by (auto simp: getitem_def split: option.splits)

lemma getitem_Inr_key: "getitem d k = Inr v \<Longrightarrow> k \<in> fst ` set d"
  by (auto simp: getitem_def split: option.splits dest: map_of_SomeD intro: rev_image_eqI)

lemma keys_delete: "fst ` set (AList.delete k d) = fst ` set d - {k}"
  by (auto simp: AList.delete_eq)

lemma delitem_Inr: "delitem d k = Inr d' \<Longrightarrow> k \<in> fst ` set d \<and> d' = AList.delete k d"
  by (auto simp: delitem_def has_key_iff split: if_splits)

lemma keys_update_present: "k \<in> fst ` set d \<Longrightarrow> fst ` set (AList.update k v d) = fst ` set d"
  by (auto simp: dom_update)

lemma eager_directive_keys:
  assumes "eager_directive e mk s m nd md = Inr (nd1, md1)"
  shows "fst ` set md1 = fst ` set md"
proof -
  from assms obtain x v where "getitem md s = Inr x" "md1 = AList.update s v md"
    by (auto simp: eager_directive_def split: option.splits sum.splits)
  then show ?thesis by (simp add: keys_update_present getitem_Inr_key)
qed

lemma process_directives_keys:
  "process_directives e mk s ds seen nd md = Inr (nd1, md1) \<Longrightarrow> fst ` set md1 = fst ` set md"
proof (induction ds arbitrary: seen nd md)
  case Nil
  then show ?case by simp
next
  case (Cons d ds)
  then show ?case
    by (auto split: val.splits if_splits option.splits sum.splits prod.splits
             dest!: eager_directive_keys)
qed

lemma process_meta_keys_success:
  "process_meta_keys e ks nd md = Inr (nd1, md1) \<Longrightarrow>
     (\<forall>k\<in>set ks. k \<in> fst ` set md \<and> setting_of k \<in> fst ` set md) \<and>
     fst ` set md1 = fst ` set md - (set ks \<union> setting_of ` set ks)"
proof (induction ks arbitrary: nd md)
  case Nil
  then show ?case by simp
next
  case (Cons k ks)
  from Cons.prems obtain mv ds nd2 md2 md3 md4 where
    g: "getitem md k = Inr mv" and
    p: "process_directives e k (setting_of k) ds False nd md = Inr (nd2, md2)" and
    d1: "delitem md2 k = Inr md3" and
    d2: "delitem md3 (setting_of k) = Inr md4" and
    r: "process_meta_keys e ks nd2 md4 = Inr (nd1, md1)"
    by (auto split: sum.splits prod.splits)
  have k2: "fst ` set md2 = fst ` set md" using p by (rule process_directives_keys)
  have k3: "fst ` set md3 = fst ` set md - {k}" and kin: "k \<in> fst ` set md"
    using delitem_Inr [OF d1] k2 by (auto simp: keys_delete)
  have k4: "fst ` set md4 = fst ` set md - {k, setting_of k}" and sin: "setting_of k \<in> fst ` set md"
    using delitem_Inr [OF d2] k3 by (auto simp: keys_delete)
  from Cons.IH [OF r] show ?case using k4 kin sin by auto
qed

text \<open>
  C1, as amended.  The evaluator reads and deletes \<^verbatim>\<open>meta_dict[setting]\<close>, the local copy
  of the provider, never the base.  So whenever its loop completes, every key of the provider
  that ends in \<^verbatim>\<open>_meta\<close> had its setting in the same provider, and both keys are gone from
  the local copy; and a provider with a meta key whose setting it does not carry makes the
  evaluator fail, whatever the base dictionary holds.
\<close>

theorem meta_key_needs_setting_in_provider:
  "(expand_meta_loop e W P = Inr (W', M') \<longrightarrow>
      (\<forall>k\<in>fst ` set P. ends_with_meta k \<longrightarrow>
          setting_of k \<in> fst ` set P \<and> k \<notin> fst ` set M' \<and> setting_of k \<notin> fst ` set M'))
   \<and> (k \<in> fst ` set P \<longrightarrow> ends_with_meta k \<longrightarrow> setting_of k \<notin> fst ` set P \<longrightarrow>
        isl (update_and_expand_meta e W P))"
proof -
  have a: "setting_of k \<in> fst ` set P \<and> k \<notin> fst ` set M' \<and> setting_of k \<notin> fst ` set M'"
    if "expand_meta_loop e W P = Inr (W', M')" "k \<in> fst ` set P" "ends_with_meta k" for k W' M'
  proof -
    have "k \<in> set (filter ends_with_meta (map fst P))" using that by auto
    with process_meta_keys_success [of e "filter ends_with_meta (map fst P)" W P W' M'] that(1)
    show ?thesis by (auto simp: expand_meta_loop_def deepdict_def)
  qed
  have b: "isl (update_and_expand_meta e W P)"
    if "k \<in> fst ` set P" "ends_with_meta k" "setting_of k \<notin> fst ` set P"
  proof (cases "expand_meta_loop e W P")
    case (Inl err)
    then show ?thesis by (simp add: update_and_expand_meta_def)
  next
    case (Inr r)
    then show ?thesis using a [of "fst r" "snd r" k] that by simp
  qed
  show ?thesis using a b by blast
qed

theorem meta_key_needs_setting_in_provider_witness:
  "expand_meta_loop env0 [(''k'', VList [VInt 1])] [(''k'', VList [VInt 2]), (''k_meta'', VStr ''append'')]
     = Inr ([(''k'', VList [VInt 1, VInt 2])], []) \<and>
   ''k_meta'' \<in> fst ` set [(''k'', VList [VInt 2]), (''k_meta'', VStr ''append'')] \<and>
   ends_with_meta ''k_meta'' \<and>
   setting_of ''k_meta'' \<in> fst ` set [(''k'', VList [VInt 2]), (''k_meta'', VStr ''append'')] \<and>
   ''k_meta'' \<in> fst ` set [(''k_meta'', VStr ''append'')] \<and>
   setting_of ''k_meta'' \<notin> fst ` set [(''k_meta'', VStr ''append'')] \<and>
   isl (update_and_expand_meta env0 [(''k'', VList [VInt 1])] [(''k_meta'', VStr ''append'')])"
proof -
  have l: "expand_meta_loop env0 [(''k'', VList [VInt 1])] [(''k'', VList [VInt 2]), (''k_meta'', VStr ''append'')]
     = Inr ([(''k'', VList [VInt 1, VInt 2])], [])"
    by (simp add: expand_meta_loop_def deepdict_def ends_with_meta_def suffix_def setting_of_def
        meta_directives_of_def getitem_def delitem_def has_key_def eager_directive_def
        get_meta_directives_def append_action_def)
  have m: "ends_with_meta ''k_meta''" "setting_of ''k_meta'' = ''k''"
    by (simp_all add: ends_with_meta_def suffix_def setting_of_def)
  show ?thesis
    using l m
      meta_key_needs_setting_in_provider [of env0 "[(''k'', VList [VInt 1])]"
        "[(''k'', VList [VInt 2]), (''k_meta'', VStr ''append'')]" "[(''k'', VList [VInt 1, VInt 2])]" "[]" "''k_meta''"]
      meta_key_needs_setting_in_provider [of env0 "[(''k'', VList [VInt 1])]"
        "[(''k_meta'', VStr ''append'')]" "[]" "[]" "''k_meta''"]
    by simp
qed

text \<open>
  The claim as stated fails: with \<^verbatim>\<open>k\<close> in the base dictionary only, the provider
  \<^verbatim>\<open>{"k_meta": "append"}\<close> raises a \<^verbatim>\<open>KeyError\<close>.
\<close>

theorem setting_only_in_base_counterexample:
  "has_key [(''k'', VList [VInt 1])] ''k'' \<and>
   update_and_expand_meta env0 [(''k'', VList [VInt 1])] [(''k_meta'', VStr ''append'')]
     = Inl (KeyError ''k'')"
  by (simp add: update_and_expand_meta_def expand_meta_loop_def deepdict_def ends_with_meta_def
        suffix_def setting_of_def meta_directives_of_def getitem_def has_key_def
        eager_directive_def get_meta_directives_def)


section \<open>A lazy directive that refers to its own setting\<close>

lemma digit_char_digit: "k < 10 \<Longrightarrow> digit_char k \<in> set ''0123456789''"
  unfolding digit_char_def by (rule nth_mem) simp

lemma str_of_nat_last: "str_of_nat n \<noteq> [] \<and> last (str_of_nat n) = digit_char (n mod 10)"
  by (subst (1 2) str_of_nat.simps) simp

lemma str_of_int_last: "str_of_int i \<noteq> [] \<and> last (str_of_int i) \<in> set ''0123456789''"
  using str_of_nat_last digit_char_digit [of "nat i mod 10"] digit_char_digit [of "nat (- i) mod 10"]
  by (auto simp: str_of_int_def)

lemma str_of_int_not_meta: "str_of_int i \<noteq> ''meta''"
proof
  assume "str_of_int i = ''meta''"
  then have "last (str_of_int i) = CHR ''a''" by simp
  with str_of_int_last [of i] show False by auto
qed

lemma setting_of_meta [simp]: "setting_of (s @ ''_meta'') = s"
  by (simp add: setting_of_def)

lemma ends_with_meta_append [simp]: "ends_with_meta (s @ ''_meta'')"
  by (simp add: ends_with_meta_def suffix_def)

lemma lazy_name_prefixes [simp]:
  "\<not> prefix ''dynamic'' (''lazy'' @ b)" "prefix ''lazy'' (''lazy'' @ b)" "drop 4 (''lazy'' @ b) = b"
  by simp_all

text \<open>
  The branch for a lazy directive that has its own setting among its targets, in general:
  with the index \<open>i\<close> taken from the counter it renames the directive's value, fails when
  the rename gives \<^verbatim>\<open>None\<close>, and otherwise stores the prior value of the setting under
  \<open>s_i\<close>, the renamed value under \<open>s\<close> and the lazy directive name under \<open>s_meta\<close>.
\<close>

lemma lazy_directive_self_reference:
  assumes "map_of md s = Some value" "target_settings d s value = Inr targets" "s \<in> set targets"
    "get_next_free_index e nd = Inr (i, nd1)"
  shows "(rename_target d s value s (s @ ''_'' @ str_of_int i) = Inr None \<longrightarrow>
           lazy_directive e d s meta_type nd md = Inl (RenameFailed s))
       \<and> (rename_target d s value s (s @ ''_'' @ str_of_int i) = Inr (Some (new_value, new_meta)) \<longrightarrow>
            map_of nd1 s = Some old \<longrightarrow>
            lazy_directive e d s meta_type nd md =
              Inr (dict_update nd1
                    ([(s @ ''_'' @ str_of_int i, old), (s, new_value),
                      (s @ ''_meta'', VStr (''lazy'' @ new_meta))] @
                     (case map_of nd1 (s @ ''_meta'') of
                        None \<Rightarrow> []
                      | Some old_meta \<Rightarrow> [(s @ ''_'' @ str_of_int i @ ''_meta'', old_meta)]))))"
proof -
  have "filter (\<lambda>x. x = s) targets \<noteq> []" using assms(3) by (simp add: filter_empty_conv)
  then show ?thesis using assms str_of_int_not_meta [of i]
    by (auto simp: lazy_directive_def getitem_def dict_update_def split: option.splits)
qed


text \<open>
  For a directive of the registry the rename error cannot arise on this path: when the
  target is among the targets, \<^verbatim>\<open>rename_target\<close> never returns \<^verbatim>\<open>None\<close>.
\<close>

lemma registered_rename_not_None:
  assumes "map_of (get_meta_directives e) b = Some d"
    and "target_settings d s v = Inr ts" and "t \<in> set ts"
  shows "rename_target d s v t r \<noteq> Inr None"
  using assms
  by (auto simp: get_meta_directives_def append_rename_def crossappend_rename_def
        crossappendref_rename_def subst_rename_def subst_targets_def crossref_rename_def
        transclude_rename_def json2list_rename_def prependlocal_rename_def Let_def
        split: if_splits sum.splits prod.splits val.splits)

lemma get_next_free_index_stored:
  "get_next_free_index e d = Inr (i, d1) \<Longrightarrow> map_of d1 NEXT_FREE_INDEX_KEY = Some (VInt (i + 1))"
  by (auto simp: get_next_free_index_def Let_def update_conv' split: sum.splits if_splits)

lemma single_lazy_meta_key:
  assumes mk: "filter ends_with_meta (map fst P) = [s @ ''_meta'']"
    and mv: "map_of P (s @ ''_meta'') = Some mv" "meta_directives_of mv = Inr [VStr (''lazy'' @ b)]"
    and reg: "map_of (get_meta_directives e) b = Some d"
    and v: "map_of P s = Some value"
    and l: "lazy_directive e d s (''lazy'' @ b) W P = Inr R"
  shows "update_and_expand_meta e W P
           = Inr (dict_update R (AList.delete s (AList.delete (s @ ''_meta'') P)))"
proof -
  have "has_key P (s @ ''_meta'')" using mv by (simp add: has_key_def)
  moreover have "has_key (AList.delete (s @ ''_meta'') P) s"
    using v by (simp add: has_key_def delete_conv')
  ultimately show ?thesis
    using assms
    by (simp add: update_and_expand_meta_def expand_meta_loop_def deepdict_def getitem_def
          delitem_def)
qed


lemma lazy_directive_self_reference_lookups:
  assumes "R = dict_update W1
                 ([(s @ ''_'' @ str_of_int i, old), (s, new_value),
                   (s @ ''_meta'', VStr (''lazy'' @ new_meta))] @
                  (case map_of W1 (s @ ''_meta'') of
                     None \<Rightarrow> []
                   | Some old_meta \<Rightarrow> [(s @ ''_'' @ str_of_int i @ ''_meta'', old_meta)]))"
  shows "map_of R (s @ ''_'' @ str_of_int i) = Some old"
    and "map_of R s = Some new_value"
    and "map_of R (s @ ''_meta'') = Some (VStr (''lazy'' @ new_meta))"
    and "map_of W1 (s @ ''_meta'') = Some m \<Longrightarrow> map_of R (s @ ''_'' @ str_of_int i @ ''_meta'') = Some m"
  using assms str_of_int_not_meta [of i]
  by (auto simp: dict_update_def update_conv' split: option.splits)

lemma str_of_int_1: "str_of_int 1 = ''1''"
  by (simp add: str_of_int_def str_of_nat.simps digit_char_def)

lemma str_of_int_12: "str_of_int 12 = ''12''"
  by (simp add: str_of_int_def str_of_nat.simps digit_char_def)

text \<open>
  C3.  The index comes from the counter \<^verbatim>\<open>_next_free_index\<close> alone (1 when the counter is
  absent), and \<^verbatim>\<open>newdict.update\<close> stores the prior value of \<open>s\<close> under \<open>s_i\<close> whether or not
  the working dictionary has that key already: the key is not fresh.  With \<^verbatim>\<open>p_1\<close> present
  and no counter, the self-referring \<^verbatim>\<open>lazysubst\<close> on \<^verbatim>\<open>p\<close> overwrites \<^verbatim>\<open>p_1\<close>, and its
  value is lost; the same happens to \<^verbatim>\<open>p_12\<close> when the counter stands at 12.  The comments on
  the counter say that it tracks the next available suffix "to avoid duplicate keys" and
  that the function gets "the next free index in the given dictionary".
\<close>

theorem next_free_index_overwrites_existing_key:
  "has_key [(''p'', VStr ''x''), (''p_1'', VStr ''KEEP'')] ''p_1'' \<and>
   update_and_expand_meta e [(''p'', VStr ''x''), (''p_1'', VStr ''KEEP'')]
       [(''p'', VStr ''${p}_y''), (''p_meta'', VStr ''lazysubst'')]
     = Inr [(''p'', VStr ''${p_1}_y''), (''p_1'', VStr ''x''), (''_next_free_index'', VInt 2),
            (''p_meta'', VStr ''lazysubst'')] \<and>
   has_key [(''p'', VStr ''x''), (''p_12'', VStr ''KEEP''), (''_next_free_index'', VInt 12)] ''p_12'' \<and>
   update_and_expand_meta e
       [(''p'', VStr ''x''), (''p_12'', VStr ''KEEP''), (''_next_free_index'', VInt 12)]
       [(''p'', VStr ''${p}_y''), (''p_meta'', VStr ''lazysubst'')]
     = Inr [(''p'', VStr ''${p_12}_y''), (''p_12'', VStr ''x''), (''_next_free_index'', VInt 13),
            (''p_meta'', VStr ''lazysubst'')]"
  by (simp add: update_and_expand_meta_def expand_meta_loop_def deepdict_def
        ends_with_meta_def setting_of_def meta_directives_of_def get_meta_directives_def
        lazy_directive_def suffix_def subst_targets_def subst_rename_def subst_str_def
        getitem_def delitem_def has_key_def dict_update_def var_char_def
        get_next_free_index_def py_int_def NEXT_FREE_INDEX_KEY_def str_of_int_1 str_of_int_12)


section \<open>Flattening and its inverse\<close>

lemma py_split_dotfree: "c \<notin> set k \<Longrightarrow> py_split c k = [k]"
  by (induction k) auto

lemma py_split_append: "c \<notin> set p \<Longrightarrow> py_split c (p @ c # s) = p # py_split c s"
  by (induction p) auto

lemma py_split_rpath:
  "\<forall>p\<in>set ps. CHR ''.'' \<notin> set p \<Longrightarrow> py_split (CHR ''.'') (rpath ps @ s) = ps @ py_split (CHR ''.'') s"
  by (induction ps) (auto simp: rpath_def py_split_append)

lemma rpath_snoc: "k \<noteq> [] \<Longrightarrow> real_prefix_of (rpath ps @ k) = rpath (ps @ [k])"
  by (simp add: real_prefix_of_def rpath_def)

lemma update_fresh: "k \<notin> fst ` set d \<Longrightarrow> AList.update k v d = d @ [(k, v)]"
  by (induction d) auto

lemma dict_update_fresh:
  "distinct (map fst xs) \<Longrightarrow> fst ` set xs \<inter> fst ` set out = {} \<Longrightarrow> dict_update out xs = out @ xs"
proof (induction xs arbitrary: out)
  case Nil
  then show ?case by (simp add: dict_update_def)
next
  case (Cons x xs)
  obtain k v where x: "x = (k, v)" by (cases x)
  have "dict_update out (x # xs) = dict_update (AList.update k v out) xs"
    by (simp add: dict_update_def x)
  also have "AList.update k v out = out @ [(k, v)]"
    using Cons.prems x by (intro update_fresh) auto
  also have "dict_update (out @ [(k, v)]) xs = (out @ [(k, v)]) @ xs"
    using Cons.prems x by (intro Cons.IH) auto
  finally show ?case by (simp add: x)
qed

lemma at_path_append:
  "at_path (ps @ qs) root = (case at_path ps root of Some c \<Rightarrow> at_path qs c | None \<Rightarrow> None)"
  by (induction ps arbitrary: root) (auto split: option.splits val.splits)

lemma at_put_path: "at_path ps root = Some cur \<Longrightarrow> at_path ps (put_path ps new root) = Some new"
  by (induction ps arbitrary: root) (auto simp: update_conv' split: option.splits val.splits)

lemma put_put_path:
  "at_path ps root = Some cur \<Longrightarrow> put_path ps new2 (put_path ps new1 root) = put_path ps new2 root"
  by (induction ps arbitrary: root) (auto simp: update_conv' split: option.splits val.splits)

lemma put_path_same: "at_path ps root = Some cur \<Longrightarrow> put_path ps cur root = root"
  by (induction ps arbitrary: root) (auto simp: update_triv split: option.splits val.splits)

lemma put_path_append:
  "at_path ps root = Some c \<Longrightarrow> put_path (ps @ qs) new root = put_path ps (put_path qs new c) root"
  by (induction ps arbitrary: root) (auto split: option.splits val.splits)

lemma set_path_existing:
  "at_path ps root = Some cur \<Longrightarrow>
     set_path ps k v root = Inr (put_path ps (AList.update k v cur) root)"
  by (induction ps arbitrary: root)
     (auto simp: has_key_def getitem_def split: option.splits val.splits)

lemma set_path_creates:
  "at_path ps root = Some cur \<Longrightarrow> q \<notin> fst ` set cur \<Longrightarrow>
     set_path (ps @ q # m) l v root
       = set_path (ps @ q # m) l v (put_path ps (cur @ [(q, VDict [])]) root)"
proof (induction ps arbitrary: root)
  case Nil
  then show ?case
    by (simp add: has_key_iff update_fresh)
next
  case (Cons p ps)
  then show ?case
    by (auto simp: has_key_def getitem_def update_conv' split: option.splits val.splits sum.splits)
qed

lemma reverse_unpack_items_append:
  "reverse_unpack_items (a @ b) root =
     (case reverse_unpack_items a root of Inl err \<Rightarrow> Inl err | Inr r \<Rightarrow> reverse_unpack_items b r)"
  by (induction a arbitrary: root) (auto simp: Let_def split: sum.splits)

lemma under_mono: "K \<subseteq> K' \<Longrightarrow> under ps K \<subseteq> under ps K'"
  by (auto simp: under_def)

lemma under_disjoint: "K \<inter> K' = {} \<Longrightarrow> under ps K \<inter> under ps K' = {}"
  by (auto simp: under_def)

lemma under_snoc: "under (ps @ [k]) K \<subseteq> under ps {k}"
  by (auto simp: under_def)

lemma under_Cons:
  "under ps (fst ` set ((k, v) # rest)) = under ps {k} \<union> under ps (fst ` set rest)"
  by (auto simp: under_def)

lemma unpack_items_structure:
  assumes "plain_nested d" and "\<forall>p\<in>set ps. CHR ''.'' \<notin> set p"
  shows "distinct (map fst (unpack_items (rpath ps) d []))
       \<and> fst ` set (unpack_items (rpath ps) d []) \<subseteq> under ps (fst ` set d)
       \<and> (d \<noteq> [] \<longrightarrow> unpack_items (rpath ps) d [] \<noteq> [])
       \<and> (\<forall>out. fst ` set out \<inter> under ps (fst ` set d) = {} \<longrightarrow>
              unpack_items (rpath ps) d out = out @ unpack_items (rpath ps) d [])"
  using assms
proof (induction d arbitrary: ps rule: plain_nested.induct)
  case 1
  then show ?case by simp
next
  case (2 key "value" rest)
  let ?rp = "rpath ps"
  let ?F = "unpack_items ?rp rest []"
  define E where "E = (case value of
       VDict sub \<Rightarrow> unpack_items (rpath (ps @ [key])) sub []
     | _ \<Rightarrow> [(?rp @ key, value)])"
  have key: "key \<noteq> []" "CHR ''.'' \<notin> set key" "key \<notin> fst ` set rest"
    and prest: "plain_nested rest"
    using "2.prems"(1) by auto
  have ps: "\<forall>p\<in>set ps. CHR ''.'' \<notin> set p" by (rule "2.prems"(2))
  note IHr = "2.IH"(2) [OF prest ps]
  have Edist: "distinct (map fst E)" and Ekeys: "fst ` set E \<subseteq> under ps {key}" and Ene: "E \<noteq> []"
  proof -
    have sub: "distinct (map fst E) \<and> fst ` set E \<subseteq> under ps {key} \<and> E \<noteq> []"
      if v: "value = VDict sub" for sub
    proof -
      have psub: "plain_nested sub" and ne: "sub \<noteq> []" using "2.prems"(1) v by simp_all
      have psk: "\<forall>p\<in>set (ps @ [key]). CHR ''.'' \<notin> set p" using ps key by simp
      have E: "E = unpack_items (rpath (ps @ [key])) sub []" by (simp add: E_def v)
      note IHs = "2.IH"(1) [OF v psub psk]
      have "distinct (map fst E)" unfolding E using IHs by blast
      moreover have "fst ` set E \<subseteq> under (ps @ [key]) (fst ` set sub)" unfolding E using IHs by blast
      then have "fst ` set E \<subseteq> under ps {key}" using under_snoc by blast
      moreover have "E \<noteq> []" unfolding E using IHs ne by blast
      ultimately show ?thesis by blast
    qed
    have leaf: "distinct (map fst E) \<and> fst ` set E \<subseteq> under ps {key} \<and> E \<noteq> []"
      if e: "E = [(rpath ps @ key, value)]"
      using ps key by (auto simp: e under_def py_split_rpath py_split_dotfree)
    have "(\<exists>sub. value = VDict sub) \<or> E = [(rpath ps @ key, value)]"
      by (cases "value") (simp_all add: E_def)
    then have all: "distinct (map fst E) \<and> fst ` set E \<subseteq> under ps {key} \<and> E \<noteq> []"
      using sub leaf by blast
    show "distinct (map fst E)" "fst ` set E \<subseteq> under ps {key}" "E \<noteq> []"
      using all by blast+
  qed
  have disj: "under ps {key} \<inter> under ps (fst ` set rest) = {}"
    using key(3) by (intro under_disjoint) auto
  have step: "unpack_items ?rp ((key, value) # rest) out = out @ E @ ?F"
    if out: "fst ` set out \<inter> under ps (fst ` set ((key, value) # rest)) = {}" for out
  proof -
    have o1: "fst ` set out \<inter> under ps {key} = {}" and o2: "fst ` set out \<inter> under ps (fst ` set rest) = {}"
      using out unfolding under_Cons by auto
    have "(case value of
          VDict sub \<Rightarrow> dict_update out (unpack_items (real_prefix_of (?rp @ key)) sub [])
        | _ \<Rightarrow> AList.update (?rp @ key) value out) = out @ E"
    proof (cases "value")
      case (VDict sub)
      have "dict_update out E = out @ E"
        using Edist Ekeys o1 by (intro dict_update_fresh) auto
      then show ?thesis by (simp add: VDict E_def rpath_snoc key)
    next
      case VNull
      have "?rp @ key \<notin> fst ` set out" using Ekeys o1 by (auto simp: E_def VNull)
      then show ?thesis by (simp add: VNull E_def update_fresh)
    next
      case (VBool b)
      have "?rp @ key \<notin> fst ` set out" using Ekeys o1 by (auto simp: E_def VBool)
      then show ?thesis by (simp add: VBool E_def update_fresh)
    next
      case (VInt n)
      have "?rp @ key \<notin> fst ` set out" using Ekeys o1 by (auto simp: E_def VInt)
      then show ?thesis by (simp add: VInt E_def update_fresh)
    next
      case (VStr t)
      have "?rp @ key \<notin> fst ` set out" using Ekeys o1 by (auto simp: E_def VStr)
      then show ?thesis by (simp add: VStr E_def update_fresh)
    next
      case (VList l)
      have "?rp @ key \<notin> fst ` set out" using Ekeys o1 by (auto simp: E_def VList)
      then show ?thesis by (simp add: VList E_def update_fresh)
    qed
    then have "unpack_items ?rp ((key, value) # rest) out = unpack_items ?rp rest (out @ E)"
      by simp
    also have "\<dots> = (out @ E) @ ?F"
    proof -
      have "fst ` set (out @ E) \<inter> under ps (fst ` set rest) = {}"
        using o2 Ekeys disj by auto
      with IHr show ?thesis by blast
    qed
    finally show ?thesis by simp
  qed
  have F: "unpack_items ?rp ((key, value) # rest) [] = E @ ?F"
    using step [of "[]"] by simp
  have Fd: "distinct (map fst ?F)" and Fk: "fst ` set ?F \<subseteq> under ps (fst ` set rest)"
    using IHr by blast+
  have c1: "distinct (map fst (unpack_items ?rp ((key, value) # rest) []))"
    unfolding F using Edist Ekeys Fd Fk disj by auto
  have c2: "fst ` set (unpack_items ?rp ((key, value) # rest) [])
              \<subseteq> under ps (fst ` set ((key, value) # rest))"
    unfolding F under_Cons using Ekeys Fk by auto
  have c3: "unpack_items ?rp ((key, value) # rest) [] \<noteq> []"
    unfolding F using Ene by simp
  have c4: "\<forall>out. fst ` set out \<inter> under ps (fst ` set ((key, value) # rest)) = {} \<longrightarrow>
              unpack_items ?rp ((key, value) # rest) out
                = out @ unpack_items ?rp ((key, value) # rest) []"
    unfolding F using step by blast
  show ?case using c1 c2 c3 c4 by blast
qed


lemma map_of_snoc_fresh: "k \<notin> fst ` set d \<Longrightarrow> map_of (d @ [(k, v)]) k = Some v"
  by (induction d) auto

lemma put_path_single:
  assumes "k \<notin> fst ` set cur"
  shows "put_path [k] sub (cur @ [(k, VDict x)]) = cur @ [(k, VDict sub)]"
proof -
  have "AList.update k (VDict sub) (cur @ [(k, VDict x)])
          = AList.update k (VDict sub) (AList.update k (VDict x) cur)"
    by (simp add: update_fresh [OF assms])
  also have "\<dots> = cur @ [(k, VDict sub)]"
    by (subst AList.update_last) (rule update_fresh [OF assms])
  finally show ?thesis using map_of_snoc_fresh [OF assms, of "VDict x"] by simp
qed

lemma unpack_items_Cons:
  assumes "plain_nested ((key, value) # rest)" and "\<forall>p\<in>set ps. CHR ''.'' \<notin> set p"
  shows "unpack_items (rpath ps) ((key, value) # rest) []
           = (case value of
                VDict sub \<Rightarrow> unpack_items (rpath (ps @ [key])) sub []
              | _ \<Rightarrow> [(rpath ps @ key, value)])
             @ unpack_items (rpath ps) rest []"
proof -
  define E where "E = (case value of
       VDict sub \<Rightarrow> unpack_items (rpath (ps @ [key])) sub []
     | _ \<Rightarrow> [(rpath ps @ key, value)])"
  have key: "key \<noteq> []" "CHR ''.'' \<notin> set key" "key \<notin> fst ` set rest"
    and prest: "plain_nested rest"
    using assms(1) by auto
  have psk: "\<forall>p\<in>set (ps @ [key]). CHR ''.'' \<notin> set p" using assms(2) key by simp
  have Ek: "distinct (map fst E) \<and> fst ` set E \<subseteq> under ps {key}"
  proof (cases "\<exists>sub. value = VDict sub")
    case True
    then obtain sub where v: "value = VDict sub" by blast
    then have "plain_nested sub" using assms(1) by simp
    from unpack_items_structure [OF this psk]
    have "distinct (map fst (unpack_items (rpath (ps @ [key])) sub []))"
      "fst ` set (unpack_items (rpath (ps @ [key])) sub []) \<subseteq> under (ps @ [key]) (fst ` set sub)"
      by blast+
    then show ?thesis using under_snoc [of ps key] by (auto simp: E_def v)
  next
    case False
    then have "E = [(rpath ps @ key, value)]" by (cases "value") (simp_all add: E_def)
    then show ?thesis
      using assms(2) key by (auto simp: under_def py_split_rpath py_split_dotfree)
  qed
  have first: "(case value of
          VDict sub \<Rightarrow> dict_update [] (unpack_items (real_prefix_of (rpath ps @ key)) sub [])
        | _ \<Rightarrow> AList.update (rpath ps @ key) value []) = E"
  proof (cases "\<exists>sub. value = VDict sub")
    case True
    then obtain sub where v: "value = VDict sub" by blast
    have "dict_update [] E = [] @ E" using Ek by (intro dict_update_fresh) auto
    then show ?thesis by (simp add: v E_def rpath_snoc key)
  next
    case False
    then show ?thesis by (cases "value") (simp_all add: E_def)
  qed
  have "fst ` set E \<inter> under ps (fst ` set rest) = {}"
    using Ek under_disjoint [of "{key}" "fst ` set rest" ps] key(3) by auto
  with unpack_items_structure [OF prest assms(2)]
  have "unpack_items (rpath ps) rest E = E @ unpack_items (rpath ps) rest []" by blast
  then show ?thesis using first by (simp add: E_def)
qed

lemma reverse_unpack_items_leaf:
  assumes "\<forall>p\<in>set ps. CHR ''.'' \<notin> set p" and "CHR ''.'' \<notin> set key"
    and "at_path ps root = Some cur" and "key \<notin> fst ` set cur"
  shows "reverse_unpack_items [(rpath ps @ key, value)] root
           = Inr (put_path ps (cur @ [(key, value)]) root)"
  using assms
  by (simp add: py_split_rpath py_split_dotfree set_path_existing update_fresh)

lemma reverse_unpack_items_creates:
  assumes "key \<in> under (ps @ [k]) K" and "at_path ps root = Some cur" and "k \<notin> fst ` set cur"
  shows "reverse_unpack_items ((key, value) # rest) root
           = reverse_unpack_items ((key, value) # rest) (put_path ps (cur @ [(k, VDict [])]) root)"
proof -
  from assms(1) obtain k' more where "py_split (CHR ''.'') key = (ps @ [k]) @ k' # more"
    by (auto simp: under_def)
  then have "butlast (py_split (CHR ''.'') key) = ps @ k # butlast (k' # more)"
    by (simp add: butlast_append)
  then show ?thesis
    using set_path_creates [OF assms(2,3)] by (simp add: Let_def)
qed

lemma roundtrip_gen:
  assumes "plain_nested d" and "\<forall>p\<in>set ps. CHR ''.'' \<notin> set p"
    and "at_path ps root = Some cur" and "fst ` set d \<inter> fst ` set cur = {}"
  shows "reverse_unpack_items (unpack_items (rpath ps) d []) root
           = Inr (put_path ps (cur @ d) root)"
  using assms
proof (induction d arbitrary: ps root cur rule: plain_nested.induct)
  case 1
  then show ?case by (simp add: put_path_same)
next
  case (2 key "value" rest)
  have key: "key \<noteq> []" "CHR ''.'' \<notin> set key" "key \<notin> fst ` set rest"
    and prest: "plain_nested rest"
    using "2.prems"(1) by auto
  have ps: "\<forall>p\<in>set ps. CHR ''.'' \<notin> set p" by (rule "2.prems"(2))
  have fresh: "key \<notin> fst ` set cur" "fst ` set rest \<inter> fst ` set cur = {}"
    using "2.prems"(4) by auto
  define E where "E = (case value of
       VDict sub \<Rightarrow> unpack_items (rpath (ps @ [key])) sub []
     | _ \<Rightarrow> [(rpath ps @ key, value)])"
  define root1 where "root1 = put_path ps (cur @ [(key, value)]) root"
  have F: "unpack_items (rpath ps) ((key, value) # rest) [] = E @ unpack_items (rpath ps) rest []"
    unfolding E_def by (rule unpack_items_Cons [OF "2.prems"(1) ps])
  have E: "reverse_unpack_items E root = Inr root1"
  proof (cases "\<exists>sub. value = VDict sub")
    case True
    then obtain sub where v: "value = VDict sub" by blast
    have psub: "plain_nested sub" and ne: "sub \<noteq> []" using "2.prems"(1) v by simp_all
    have psk: "\<forall>p\<in>set (ps @ [key]). CHR ''.'' \<notin> set p" using ps key by simp
    have Eeq: "E = unpack_items (rpath (ps @ [key])) sub []" by (simp add: E_def v)
    define root2 where "root2 = put_path ps (cur @ [(key, VDict [])]) root"
    from unpack_items_structure [OF psub psk] ne
    have Ene: "E \<noteq> []" and Ek: "fst ` set E \<subseteq> under (ps @ [key]) (fst ` set sub)"
      unfolding Eeq by blast+
    then obtain k1 v1 tl where Ec: "E = (k1, v1) # tl" by (cases E) auto
    with Ek have "k1 \<in> under (ps @ [key]) (fst ` set sub)" by auto
    from reverse_unpack_items_creates [OF this "2.prems"(3) fresh(1)]
    have "reverse_unpack_items E root = reverse_unpack_items E root2"
      by (simp add: Ec root2_def)
    also have "\<dots> = Inr (put_path (ps @ [key]) ([] @ sub) root2)"
    proof -
      have a2: "at_path ps root2 = Some (cur @ [(key, VDict [])])"
        unfolding root2_def by (rule at_put_path [OF "2.prems"(3)])
      have "at_path (ps @ [key]) root2 = Some []"
        using map_of_snoc_fresh [OF fresh(1)] by (simp add: at_path_append a2)
      from "2.IH"(1) [OF v psub psk this] show ?thesis unfolding Eeq by simp
    qed
    also have "put_path (ps @ [key]) ([] @ sub) root2 = root1"
    proof -
      have a2: "at_path ps root2 = Some (cur @ [(key, VDict [])])"
        unfolding root2_def by (rule at_put_path [OF "2.prems"(3)])
      have "put_path (ps @ [key]) sub root2
              = put_path ps (put_path [key] sub (cur @ [(key, VDict [])])) root2"
        by (rule put_path_append [OF a2])
      also have "put_path [key] sub (cur @ [(key, VDict [])]) = cur @ [(key, VDict sub)]"
        by (rule put_path_single [OF fresh(1)])
      also have "put_path ps (cur @ [(key, VDict sub)]) root2
                   = put_path ps (cur @ [(key, VDict sub)]) root"
        unfolding root2_def by (rule put_put_path [OF "2.prems"(3)])
      finally show ?thesis by (simp add: root1_def v)
    qed
    finally show ?thesis .
  next
    case False
    then have "E = [(rpath ps @ key, value)]" by (cases "value") (simp_all add: E_def)
    then show ?thesis
      using reverse_unpack_items_leaf [OF ps key(2) "2.prems"(3) fresh(1)]
      by (simp add: root1_def)
  qed
  have a1: "at_path ps root1 = Some (cur @ [(key, value)])"
    unfolding root1_def by (rule at_put_path [OF "2.prems"(3)])
  have "fst ` set rest \<inter> fst ` set (cur @ [(key, value)]) = {}"
    using fresh key(3) by auto
  from "2.IH"(2) [OF prest ps a1 this]
  have "reverse_unpack_items (unpack_items (rpath ps) rest []) root1
          = Inr (put_path ps ((cur @ [(key, value)]) @ rest) root1)" .
  also have "put_path ps ((cur @ [(key, value)]) @ rest) root1
               = put_path ps (cur @ (key, value) # rest) root"
    unfolding root1_def using put_put_path [OF "2.prems"(3)] by simp
  finally show ?case
    unfolding F by (simp add: reverse_unpack_items_append E)
qed

text \<open>
  C7, as amended.  For every nested mapping whose keys, at every nesting level, are not empty
  and contain no dot, and whose nested mappings are not empty, \<^verbatim>\<open>reverse_unpack\<close> applied to
  \<^verbatim>\<open>unpack(x)\<close> returns \<open>x\<close>, with its keys in the same order.  Reserved keys are treated
  like any other key.
\<close>

theorem unflatten_flatten:
  "plain_nested x \<Longrightarrow> reverse_unpack (unpack x []) = Inr x"
  using roundtrip_gen [of x "[]" "[]" "[]"]
  by (simp add: reverse_unpack_def unpack_def real_prefix_of_def rpath_def)

theorem unflatten_flatten_witness:
  "plain_nested
     [(''a'', VDict [(''foo'', VInt 1), (''bar'', VDict [(''x'', VStr ''y'')])]), (''b'', VList [])] \<and>
   reverse_unpack
     (unpack [(''a'', VDict [(''foo'', VInt 1), (''bar'', VDict [(''x'', VStr ''y'')])]),
              (''b'', VList [])] [])
     = Inr [(''a'', VDict [(''foo'', VInt 1), (''bar'', VDict [(''x'', VStr ''y'')])]),
            (''b'', VList [])]"
proof -
  have "plain_nested
     [(''a'', VDict [(''foo'', VInt 1), (''bar'', VDict [(''x'', VStr ''y'')])]), (''b'', VList [])]"
    by simp
  then show ?thesis using unflatten_flatten by blast
qed

text \<open>
  The claim as stated fails for a key with a dot and for an empty nested mapping: the keys
  \<^verbatim>\<open>"a.b"\<close> and \<^verbatim>\<open>"a"\<close> are not empty and not reserved, but \<^verbatim>\<open>{"a.b": 1}\<close> comes back as
  \<^verbatim>\<open>{"a": {"b": 1}}\<close>, which has no key \<^verbatim>\<open>"a.b"\<close>, and \<^verbatim>\<open>{"a": {}}\<close> comes back empty.
\<close>

theorem unflatten_flatten_counterexample:
  "''a.b'' \<noteq> [] \<and> ''a.b'' \<notin> internal_keys \<and>
   reverse_unpack (unpack [(''a.b'', VInt 1)] []) = Inr [(''a'', VDict [(''b'', VInt 1)])] \<and>
   map_of [(''a'', VDict [(''b'', VInt 1)])] ''a.b'' = None \<and>
   map_of [(''a.b'', VInt 1)] ''a.b'' = Some (VInt 1) \<and>
   ''a'' \<noteq> [] \<and> ''a'' \<notin> internal_keys \<and>
   reverse_unpack (unpack [(''a'', VDict [])] []) = Inr []"
  by (simp add: internal_keys_def CONFIG_PATH_KEY_def NEXT_FREE_INDEX_KEY_def
        reverse_unpack_def unpack_def real_prefix_of_def dict_update_def has_key_def getitem_def)


section \<open>The keys of the resolved dictionary\<close>

lemma collect_lazy_success:
  "collect_lazy e orig mks ec lm g = Inr (ec', lm', g') \<Longrightarrow>
     (\<forall>k\<in>set mks. k \<in> fst ` set ec \<and> setting_of k \<in> fst ` set ec) \<and>
     fst ` set ec' = fst ` set ec - (set mks \<union> setting_of ` set mks) \<and>
     set mks \<inter> setting_of ` set mks = {} \<and>
     (\<forall>k\<in>set mks. \<exists>b. map_of lm' k = Some (VStr b) \<and> registered e b) \<and>
     (\<forall>x. x \<notin> set mks \<union> setting_of ` set mks \<longrightarrow> map_of lm' x = map_of lm x)"
proof (induction mks arbitrary: ec lm g)
  case Nil
  then show ?case by simp
next
  case (Cons k mks)
  from Cons.prems obtain lmt v d ts ec1 ec2 where
    g1: "getitem ec k = Inr (VStr lmt)" and
    g2: "getitem ec (setting_of k) = Inr v" and
    reg: "map_of (get_meta_directives e) (drop 4 lmt) = Some d" and
    d1: "delitem ec k = Inr ec1" and
    d2: "delitem ec1 (setting_of k) = Inr ec2" and
    r: "collect_lazy e orig mks ec2
          (AList.update (setting_of k) v (AList.update k (VStr (drop 4 lmt)) lm))
          (add_targets orig (setting_of k) ts (ensure_node g (setting_of k)))
        = Inr (ec', lm', g')"
    by (auto split: sum.splits val.splits if_splits option.splits)
  let ?lm2 = "AList.update (setting_of k) v (AList.update k (VStr (drop 4 lmt)) lm)"
  have k1: "fst ` set ec1 = fst ` set ec - {k}" and kin: "k \<in> fst ` set ec"
    using delitem_Inr [OF d1] by (auto simp: keys_delete)
  have k2: "fst ` set ec2 = fst ` set ec - {k, setting_of k}"
    and sin: "setting_of k \<in> fst ` set ec" and ne: "setting_of k \<noteq> k"
    using delitem_Inr [OF d2] k1 by (auto simp: keys_delete)
  note IH = Cons.IH [OF r]
  have A: "\<forall>k'\<in>set mks. k' \<in> fst ` set ec2 \<and> setting_of k' \<in> fst ` set ec2"
    and B: "fst ` set ec' = fst ` set ec2 - (set mks \<union> setting_of ` set mks)"
    and F: "set mks \<inter> setting_of ` set mks = {}"
    and C: "\<forall>k'\<in>set mks. \<exists>b. map_of lm' k' = Some (VStr b) \<and> registered e b"
    and D: "\<forall>x. x \<notin> set mks \<union> setting_of ` set mks \<longrightarrow> map_of lm' x = map_of ?lm2 x"
    using IH by blast+
  have notin: "k \<notin> set mks" "k \<notin> setting_of ` set mks" "setting_of k \<notin> set mks"
    using A k2 by auto
  have c1: "\<forall>k'\<in>set (k # mks). k' \<in> fst ` set ec \<and> setting_of k' \<in> fst ` set ec"
    using A k2 kin sin by auto
  have c2: "fst ` set ec' = fst ` set ec - (set (k # mks) \<union> setting_of ` set (k # mks))"
    using B k2 by auto
  have c3: "set (k # mks) \<inter> setting_of ` set (k # mks) = {}"
    using F notin ne by auto
  have "map_of lm' k = map_of ?lm2 k" using D notin by simp
  also have "\<dots> = Some (VStr (drop 4 lmt))" using ne by (simp add: update_conv')
  finally have "\<exists>b. map_of lm' k = Some (VStr b) \<and> registered e b"
    using reg by (simp add: registered_def)
  then have c4: "\<forall>k'\<in>set (k # mks). \<exists>b. map_of lm' k' = Some (VStr b) \<and> registered e b"
    using C by simp
  have c5: "\<forall>x. x \<notin> set (k # mks) \<union> setting_of ` set (k # mks) \<longrightarrow> map_of lm' x = map_of lm x"
    using D by (auto simp: update_conv')
  show ?case using c1 c2 c3 c4 c5 by blast
qed

lemma lazy_graph_success:
  assumes "lazy_graph e expanded = Inr (ec, lm, g)"
  shows "(\<forall>k\<in>fst ` set ec. \<not> ends_with_meta k) \<and> good_lazy_metas e lm"
proof -
  define mks where "mks = filter ends_with_meta (map fst expanded)"
  have c: "collect_lazy e expanded mks expanded [] [] = Inr (ec, lm, g)"
    using assms by (simp add: lazy_graph_def deepdict_def mks_def)
  note S = collect_lazy_success [OF c]
  have A: "\<And>k. k \<in> set mks \<Longrightarrow> setting_of k \<in> fst ` set expanded"
    and B: "fst ` set ec = fst ` set expanded - (set mks \<union> setting_of ` set mks)"
    and F: "set mks \<inter> setting_of ` set mks = {}"
    and C: "\<And>k. k \<in> set mks \<Longrightarrow> \<exists>b. map_of lm k = Some (VStr b) \<and> registered e b"
    and D: "\<And>x. x \<notin> set mks \<union> setting_of ` set mks \<Longrightarrow> map_of lm x = map_of [] x"
    using S by blast+
  have mks: "\<And>k. k \<in> set mks \<longleftrightarrow> k \<in> fst ` set expanded \<and> ends_with_meta k"
    unfolding mks_def by auto
  have 1: "\<forall>k\<in>fst ` set ec. \<not> ends_with_meta k"
  proof
    fix k assume "k \<in> fst ` set ec"
    then have "k \<in> fst ` set expanded" "k \<notin> set mks" unfolding B by blast+
    then show "\<not> ends_with_meta k" using mks by blast
  qed
  have in_settings_not_meta: "\<not> ends_with_meta x" if x: "x \<in> setting_of ` set mks" for x
  proof
    assume "ends_with_meta x"
    moreover have "x \<in> fst ` set expanded" using x A by blast
    ultimately have "x \<in> set mks" using mks by blast
    with x F show False by blast
  qed
  have 2: "\<not> ends_with_meta s \<and> (\<exists>b. map_of lm (s @ ''_meta'') = Some (VStr b) \<and> registered e b)"
    if hm: "has_key lm (s @ ''_meta'')" for s
  proof -
    have "map_of lm (s @ ''_meta'') \<noteq> None" using hm unfolding has_key_def .
    then have "s @ ''_meta'' \<in> set mks \<union> setting_of ` set mks"
      using D [of "s @ ''_meta''"] by fastforce
    moreover have "s @ ''_meta'' \<notin> setting_of ` set mks"
      using in_settings_not_meta [of "s @ ''_meta''"] ends_with_meta_append by blast
    ultimately have m: "s @ ''_meta'' \<in> set mks" by blast
    then have "setting_of (s @ ''_meta'') \<in> setting_of ` set mks" by (rule imageI)
    then have "s \<in> setting_of ` set mks" unfolding setting_of_meta .
    then have "\<not> ends_with_meta s" by (rule in_settings_not_meta)
    then show ?thesis using C [OF m] by blast
  qed
  show ?thesis unfolding good_lazy_metas_def using 1 2 by blast
qed

lemma action_stores_setting:
  assumes "map_of (get_meta_directives e) b = Some d" and "action d nd s v p = Inr nd1"
  shows "\<exists>w. nd1 = AList.update s w nd"
  using assms
  by (auto simp: get_meta_directives_def append_action_def crossappend_action_def
        crossappendref_action_def subst_action_def crossref_action_def transclude_action_def
        json2list_action_def prependlocal_action_def Let_def
        split: if_splits sum.splits prod.splits val.splits option.splits)

lemma action_keys:
  assumes "map_of (get_meta_directives e) b = Some d" and "action d nd s v p = Inr nd1"
  shows "fst ` set nd1 = insert s (fst ` set nd)"
proof -
  from action_stores_setting [OF assms] obtain w where "nd1 = AList.update s w nd" by blast
  then show ?thesis by (simp add: dom_update)
qed

lemma eager_directive_newdict_keys:
  assumes "eager_directive e mk s b nd md = Inr (nd1, md1)"
  shows "fst ` set nd1 = insert s (fst ` set nd)"
proof -
  from assms obtain d v p where "map_of (get_meta_directives e) b = Some d"
    "action d nd s v p = Inr nd1"
    by (auto simp: eager_directive_def split: option.splits sum.splits)
  then show ?thesis by (rule action_keys)
qed

lemma combine_meta_keys:
  assumes good: "good_lazy_metas e lm"
    and step: "combine_meta e lm config s = Inr r"
  shows "fst ` set r = insert s (fst ` set config) \<and> \<not> ends_with_meta s"
proof -
  from step obtain v m where
    v: "getitem lm s = Inr v" and m: "getitem lm (s @ ''_meta'') = Inr m" and
    u: "update_and_expand_meta e config (dict_update [] [(s, v), (s @ ''_meta'', m)]) = Inr r"
    by (auto simp: combine_meta_def split: sum.splits)
  have "has_key lm s" "has_key lm (s @ ''_meta'')"
    using getitem_Inr_key [OF v] getitem_Inr_key [OF m] by (simp_all add: has_key_iff)
  with good obtain b where nm: "\<not> ends_with_meta s" and
    b: "map_of lm (s @ ''_meta'') = Some (VStr b)" and reg: "registered e b"
    by (auto simp: good_lazy_metas_def)
  have mb: "m = VStr b" using getitem_Inr [OF m] b by simp
  have P: "dict_update [] [(s, v), (s @ ''_meta'', m)] = [(s, v), (s @ ''_meta'', m)]"
    by (simp add: dict_update_def)
  have nl: "\<not> prefix ''lazy'' b" "\<not> prefix ''dynamic'' b"
    using registered_not_lazy [OF reg] by simp_all
  from u obtain nd1 md1 where
    ed: "eager_directive e (s @ ''_meta'') s b config [(s, v), (s @ ''_meta'', m)] = Inr (nd1, md1)"
    and r: "r = dict_update nd1 (AList.delete s (AList.delete (s @ ''_meta'') md1))"
    unfolding P
    by (auto simp: update_and_expand_meta_def expand_meta_loop_def deepdict_def nm getitem_def
          mb meta_directives_of_def nl delitem_def
          split: sum.splits prod.splits if_splits)
  have "fst ` set md1 = {s, s @ ''_meta''}"
    using eager_directive_keys [OF ed] by auto
  then have "fst ` set (AList.delete s (AList.delete (s @ ''_meta'') md1)) = {}"
    by (auto simp: keys_delete)
  then have "AList.delete s (AList.delete (s @ ''_meta'') md1) = []" by simp
  then have "r = nd1" using r by (simp add: dict_update_def)
  then show ?thesis using eager_directive_newdict_keys [OF ed] nm by simp
qed

lemma reduce_combine_meta_keys:
  assumes "good_lazy_metas e lm"
  shows "reduce_err (combine_meta e lm) order config = Inr final \<Longrightarrow>
           \<forall>k\<in>fst ` set config. \<not> ends_with_meta k \<Longrightarrow>
           \<forall>k\<in>fst ` set final. \<not> ends_with_meta k"
proof (induction order arbitrary: config)
  case Nil
  then show ?case by simp
next
  case (Cons s order)
  from Cons.prems(1) obtain r where
    st: "combine_meta e lm config s = Inr r" and
    rest: "reduce_err (combine_meta e lm) order r = Inr final"
    by (auto split: sum.splits)
  have "\<forall>k\<in>fst ` set r. \<not> ends_with_meta k"
    using combine_meta_keys [OF assms st] Cons.prems(2) by auto
  from Cons.IH [OF rest this] show ?case .
qed

lemma remove_keys_keys: "fst ` set (remove_keys ks d) = fst ` set d - set ks"
  by (induction ks arbitrary: d) (auto simp: keys_delete has_key_iff)

lemma resolve_example:
  "combine_configs env0 [CONFIG_PATH_KEY, NEXT_FREE_INDEX_KEY]
     [[(''p'', VStr ''x''), (''_config_path'', VStr ''/tmp'')],
      [(''p'', VStr ''${p}_y''), (''p_meta'', VStr ''lazysubst'')]]
   = Inr [(''p_1'', VStr ''x''), (''p'', VStr ''x_y'')]"
proof -
  have f: "fold_configs env0
     [[(''p'', VStr ''x''), (''_config_path'', VStr ''/tmp'')],
      [(''p'', VStr ''${p}_y''), (''p_meta'', VStr ''lazysubst'')]]
    = Inr [(''p'', VStr ''${p_1}_y''), (''_config_path'', VStr ''/tmp''),
           (''_next_free_index'', VInt 2), (''p_1'', VStr ''x''), (''p_meta'', VStr ''lazysubst'')]"
    by (simp add: fold_configs_def update_and_expand_meta_def expand_meta_loop_def deepdict_def
        ends_with_meta_def setting_of_def meta_directives_of_def get_meta_directives_def
        lazy_directive_def suffix_def subst_targets_def subst_rename_def subst_str_def
        getitem_def delitem_def has_key_def dict_update_def var_char_def
        get_next_free_index_def py_int_def NEXT_FREE_INDEX_KEY_def str_of_int_1)
  have g: "lazy_graph env0
      [(''p'', VStr ''${p_1}_y''), (''_config_path'', VStr ''/tmp''),
       (''_next_free_index'', VInt 2), (''p_1'', VStr ''x''), (''p_meta'', VStr ''lazysubst'')]
    = Inr ([(''_config_path'', VStr ''/tmp''), (''_next_free_index'', VInt 2), (''p_1'', VStr ''x'')],
           [(''p_meta'', VStr ''subst''), (''p'', VStr ''${p_1}_y'')],
           [(''p'', [], [])])"
    by (simp add: lazy_graph_def deepdict_def
        ends_with_meta_def setting_of_def get_meta_directives_def
        suffix_def subst_targets_def getitem_def delitem_def has_key_def
        var_char_def ensure_node_def)
  have c: "combine_meta env0 [(''p_meta'', VStr ''subst''), (''p'', VStr ''${p_1}_y'')]
      [(''_config_path'', VStr ''/tmp''), (''_next_free_index'', VInt 2), (''p_1'', VStr ''x'')] ''p''
    = Inr [(''_config_path'', VStr ''/tmp''), (''_next_free_index'', VInt 2), (''p_1'', VStr ''x''),
           (''p'', VStr ''x_y'')]"
    by (simp add: combine_meta_def update_and_expand_meta_def expand_meta_loop_def deepdict_def
        ends_with_meta_def setting_of_def meta_directives_of_def get_meta_directives_def
        eager_directive_def suffix_def subst_action_def perform_subst_def subst_str_def
        getitem_def delitem_def has_key_def dict_update_def var_char_def)
  have t: "topological_sort env0 [(''p'', [], [])] [''p''] = [''p'']"
    by (simp add: env0_def)
  show ?thesis
    by (simp add: combine_configs_def f g c t starting_nodes_of_def has_key_def
          CONFIG_PATH_KEY_def NEXT_FREE_INDEX_KEY_def)
qed




section \<open>Determinism of resolution\<close>

lemma remove_keys_filter: "remove_keys ks d = filter (\<lambda>kv. fst kv \<notin> set ks) d"
proof (induction ks arbitrary: d)
  case Nil
  then show ?case by simp
next
  case (Cons k ks)
  have "(if has_key d k then AList.delete k d else d) = filter (\<lambda>kv. fst kv \<noteq> k) d"
  proof (cases "has_key d k")
    case True
    then show ?thesis by (simp add: AList.delete_eq case_prod_unfold) (metis)
  next
    case False
    then have "\<forall>kv\<in>set d. fst kv \<noteq> k" by (auto simp: has_key_iff)
    then show ?thesis using False by (simp add: filter_id_conv)
  qed
  then show ?case by (simp add: Cons.IH conj_commute)
qed

lemma combine_configs_key_order:
  assumes "set key_order1 = set key_order2"
  shows "combine_configs e key_order1 configs = combine_configs e key_order2 configs"
proof -
  have E: "remove_keys key_order1 = remove_keys key_order2"
    by (rule ext) (simp add: remove_keys_filter assms)
  show ?thesis unfolding combine_configs_def E by (rule refl)
qed

lemma get_config_key_order:
  assumes "set key_order1 = set key_order2"
  shows "get_config e key_order1 db = get_config e key_order2 db"
  by (simp add: get_config_def combine_configs_key_order [OF assms])

lemma get_config_again:
  assumes "get_config e key_order1 db = Inr (config, db1)"
  shows "get_config e key_order2 db1 = Inr (config, db1)"
  using assms by (auto simp: get_config_def split: if_splits sum.splits)

lemma get_config_same_layers:
  assumes "same_layers db1 db2" "config_cache_dirty db1" "config_cache_dirty db2"
  shows "map_sum id fst (get_config e key_order db1) = map_sum id fst (get_config e key_order db2)"
  using assms by (auto simp: get_config_def same_layers_def runtime_def split: sum.splits)

lemma transclude_example:
  "combine_configs (env_files fs) [CONFIG_PATH_KEY, NEXT_FREE_INDEX_KEY]
      [[], [(''a'', VStr ''f''), (''a_meta'', VStr ''transclude'')], []]
    = (case fs ''f'' of None \<Rightarrow> Inl IOError | Some c \<Rightarrow> Inr [(''a'', VStr c)])"
  by (simp add: combine_configs_def fold_configs_def lazy_graph_def
        update_and_expand_meta_def expand_meta_loop_def deepdict_def
        ends_with_meta_def setting_of_def meta_directives_of_def get_meta_directives_def
        eager_directive_def suffix_def transclude_action_def getitem_def delitem_def has_key_def
        dict_update_def env_files_def env0_def CONFIG_PATH_KEY_def NEXT_FREE_INDEX_KEY_def
        split: option.splits)

lemma json_dumps_env_files: "json_dumps (env_files fs) d = concat (map fst d)"
  by (simp add: env_files_def)

lemma transclude_dump:
  "get_database_json (env_files fs) [CONFIG_PATH_KEY, NEXT_FREE_INDEX_KEY]
      (update_project [[(''a'', VStr ''f''), (''a_meta'', VStr ''transclude'')]] init_database)
    = (case fs ''f'' of
         None \<Rightarrow> Inl IOError
       | Some c \<Rightarrow>
           Inr (''a'', (update_project [[(''a'', VStr ''f''), (''a_meta'', VStr ''transclude'')]]
                          init_database)
                        \<lparr>config_cache := [(''a'', VStr c)], config_cache_dirty := False\<rparr>))"
  by (simp add: get_database_json_def get_config_def update_project_def init_database_def
        runtime_def transclude_example json_dumps_env_files split: option.splits)




end
